theory Spec2Isabelle
  imports Main
begin

section \<open>Replay buffers of \<open>utils/buffer_large.py\<close>\<close>

text \<open>
  The module defines three index policies (\<open>reservoir\<close>, \<open>ring\<close>, \<open>fifo\<close>), a windowed
  view over a time series (\<open>StreamDataset\<close>), two stream buffers (\<open>FastStreamBuffer\<close>,
  \<open>SlowStreamBuffer\<close>) and two slot buffers (\<open>Buffer\<close>, \<open>BufferFIFO\<close>).

  Conventions of the embedding.
  \<^item> Python integers are \<open>int\<close>.
  \<^item> A tensor of shape \<open>(n, *item_shape)\<close> is the list of its \<open>n\<close> rows; a series of
    shape \<open>(1, time, feature)\<close> is the list of its time steps. Rows and time steps are
    values of an abstract type, so a mismatch of the trailing shapes is outside the model,
    and so are the device transfer and the \<open>float32\<close> element type.
  \<^item> Every exception the code can raise is a value of \<open>error\<close>. A function that only
    computes returns \<open>error + 'a\<close>. A method that mutates \<open>self\<close> returns the object as
    the call leaves it together with the exception raised, if any: a Python caller that
    catches the exception goes on with that object. A method with no exception in the
    model returns the object alone.
  \<^item> A random draw is the list of its equally likely results, so a function that draws
    returns the list of the equally likely results of one call.
\<close>

subsection \<open>Exceptions and sequencing\<close>

datatype error =
  AttributeError | IndexError | ZeroDivisionError | TypeError
  | ValueError | RuntimeError | AssertionError | NameError

definition and_then :: "'s \<times> error option \<Rightarrow> ('s \<Rightarrow> 's \<times> error option) \<Rightarrow> 's \<times> error option" where
  "and_then r f = (case snd r of None \<Rightarrow> f (fst r) | Some e \<Rightarrow> r)"

definition py_mod :: "int \<Rightarrow> int \<Rightarrow> error + int" where
  \<comment> \<open>\<open>a % b\<close>: the result has the sign of \<open>b\<close>, as HOL's \<open>mod\<close> on \<open>int\<close>.\<close>
  "py_mod a b = (if b = 0 then Inl ZeroDivisionError else Inr (a mod b))"

definition py_floordiv :: "int \<Rightarrow> int \<Rightarrow> error + int" where
  \<comment> \<open>\<open>a // b\<close>: rounds towards minus infinity, as HOL's \<open>div\<close> on \<open>int\<close>.\<close>
  "py_floordiv a b = (if b = 0 then Inl ZeroDivisionError else Inr (a div b))"

subsection \<open>Library operations the module calls\<close>

definition randint :: "int \<Rightarrow> int \<Rightarrow> error + int list" where
  \<comment> \<open>\<open>np.random.randint(low, high)\<close>: uniform on the half-open range \<open>[low, high)\<close>.\<close>
  "randint low high = (if high \<le> low then Inl ValueError else Inr [low..high - 1])"

fun selections :: "nat \<Rightarrow> nat list \<Rightarrow> nat list list" where
  "selections 0 xs = [[]]"
| "selections (Suc k) xs =
     concat (map (\<lambda>x. map ((#) x) (selections k (remove1 x xs))) xs)"

definition random_choice :: "int \<Rightarrow> int \<Rightarrow> error + nat list list" where
  \<comment> \<open>\<open>np.random.choice(a, size=size, replace=False)\<close> for an integer \<open>a\<close>: a uniform
      sample of \<open>size\<close> elements of \<open>range(a)\<close> without replacement (the first \<open>size\<close>
      entries of a random permutation).\<close>
  "random_choice a sz =
     (if a \<le> 0 \<and> sz \<noteq> 0 then Inl ValueError
      else if sz < 0 then Inl ValueError
      else if a < sz then Inl ValueError
      else Inr (selections (nat sz) [0..<nat a]))"

definition torch_zeros :: "int \<Rightarrow> error + 'a::zero list" where
  \<comment> \<open>\<open>torch.zeros((n, *shape))\<close>: a negative dimension is refused.\<close>
  "torch_zeros n = (if n < 0 then Inl RuntimeError else Inr (replicate (nat n) 0))"

definition torch_stack :: "'a list \<Rightarrow> error + 'a list" where
  \<comment> \<open>\<open>torch.stack(rows)\<close>: an empty list of tensors is refused.\<close>
  "torch_stack rows = (if rows = [] then Inl RuntimeError else Inr rows)"

definition norm_index :: "nat \<Rightarrow> int \<Rightarrow> error + nat" where
  \<comment> \<open>An integer index into a dimension of size \<open>n\<close>: negative indices count from the end.\<close>
  "norm_index n i =
     (let j = (if i < 0 then i + int n else i)
      in if 0 \<le> j \<and> j < int n then Inr (nat j) else Inl IndexError)"

definition tensor_get :: "'a list \<Rightarrow> int \<Rightarrow> error + 'a" where
  "tensor_get t i = (case norm_index (length t) i of Inl e \<Rightarrow> Inl e | Inr j \<Rightarrow> Inr (t ! j))"

definition tensor_set :: "'a list \<Rightarrow> int \<Rightarrow> 'a \<Rightarrow> error + 'a list" where
  "tensor_set t i v = (case norm_index (length t) i of Inl e \<Rightarrow> Inl e | Inr j \<Rightarrow> Inr (t[j := v]))"

definition slice_from :: "int \<Rightarrow> 'a list \<Rightarrow> 'a list" where
  \<comment> \<open>\<open>t[:, s:, :]\<close>: a negative start counts from the end and is clipped at the front.\<close>
  "slice_from s t = (if s < 0 then drop (nat (int (length t) + s)) t else drop (nat s) t)"

subsection \<open>Index policies\<close>

definition reservoir :: "int \<Rightarrow> int \<Rightarrow> error + int list" where
  "reservoir num_seen_examples buffer_size =
     (if num_seen_examples < buffer_size then Inr [num_seen_examples]
      else case randint 0 (num_seen_examples + 1) of
             Inl e \<Rightarrow> Inl e
           | Inr rands \<Rightarrow> Inr (map (\<lambda>rand. if rand < buffer_size then rand else - 1) rands))"

definition ring :: "int \<Rightarrow> int \<Rightarrow> int \<Rightarrow> error + int" where
  "ring num_seen_examples buffer_portion_size task =
     (case py_mod num_seen_examples buffer_portion_size of
        Inl e \<Rightarrow> Inl e
      | Inr m \<Rightarrow> Inr (m + task * buffer_portion_size))"

definition fifo :: "int \<Rightarrow> int \<Rightarrow> error + int" where
  "fifo num_seen_examples buffer_size = py_mod num_seen_examples buffer_size"

subsection \<open>The slot buffers \<open>Buffer\<close> and \<open>BufferFIFO\<close>\<close>

text \<open>
  Both classes keep the same instance fields. The tensors are instance attributes that
  the code creates with \<open>setattr\<close>, tests with \<open>hasattr\<close> and removes with \<open>delattr\<close>, so
  they are a dictionary from attribute names to tensors; an attribute that is not in the
  dictionary raises \<open>AttributeError\<close> when read.
\<close>

record 'a Buffer =
  buffer_size :: int
  num_seen_examples :: int
  functional_index :: string
  task_number :: "int option"
  buffer_portion_size :: "int option"
  attributes :: "string list"
  tensors :: "string \<rightharpoonup> 'a list"

definition new_buffer :: "string list \<Rightarrow> string list \<Rightarrow> int \<Rightarrow> int option \<Rightarrow> string \<Rightarrow> error + 'a Buffer" where
  \<comment> \<open>The shared body of the two constructors: \<open>modes\<close> is the list of the assertion,
      \<open>attrs\<close> the value of \<open>self.attributes\<close>.\<close>
  "new_buffer modes attrs bsize n_tasks mode =
     (if mode \<notin> set modes then Inl AssertionError
      else let b = \<lparr>buffer_size = bsize, num_seen_examples = 0, functional_index = mode,
                    task_number = None, buffer_portion_size = None,
                    attributes = attrs, tensors = Map.empty\<rparr>
           in if mode = ''ring'' then
                (case n_tasks of
                   None \<Rightarrow> Inl AssertionError
                 | Some t \<Rightarrow>
                     (case py_floordiv bsize t of
                        Inl e \<Rightarrow> Inl e
                      | Inr p \<Rightarrow> Inr (b\<lparr>task_number := Some t, buffer_portion_size := Some p\<rparr>)))
              else Inr b)"

definition Buffer_init :: "int \<Rightarrow> int option \<Rightarrow> string \<Rightarrow> error + 'a Buffer" where
  "Buffer_init =
     new_buffer [''ring'', ''reservoir'', ''fifo'']
       [''examples'', ''labels'', ''logits'', ''task_labels'']"

definition BufferFIFO_init :: "int \<Rightarrow> int option \<Rightarrow> string \<Rightarrow> error + 'a Buffer" where
  "BufferFIFO_init = new_buffer [''ring'', ''reservoir''] [''losses'']"

fun init_tensors_loop ::
  "string list \<Rightarrow> (string \<rightharpoonup> 'a list option) \<Rightarrow> 'a::zero Buffer \<Rightarrow> 'a Buffer \<times> error option" where
  "init_tensors_loop [] env b = (b, None)"
| "init_tensors_loop (attr_str # rest) env b =
     (case env attr_str of
        None \<Rightarrow> (b, Some NameError)
      | Some attr \<Rightarrow>
          if attr \<noteq> None \<and> tensors b attr_str = None then
            (case torch_zeros (buffer_size b) of
               Inl e \<Rightarrow> (b, Some e)
             | Inr z \<Rightarrow> init_tensors_loop rest env (b\<lparr>tensors := (tensors b)(attr_str \<mapsto> z)\<rparr>))
          else init_tensors_loop rest env b)"

definition init_tensors :: "(string \<rightharpoonup> 'a list option) \<Rightarrow> 'a::zero Buffer \<Rightarrow> 'a Buffer \<times> error option" where
  \<comment> \<open>\<open>env\<close> holds the parameters of the method, which \<open>eval(attr_str)\<close> looks up by name.\<close>
  "init_tensors env b = init_tensors_loop (attributes b) env b"

definition store_item :: "string \<Rightarrow> int \<Rightarrow> 'a list \<Rightarrow> nat \<Rightarrow> 'a Buffer \<Rightarrow> 'a Buffer \<times> error option" where
  \<comment> \<open>\<open>self.<name>[index] = src[i]\<close>: the right-hand side is evaluated first.\<close>
  "store_item name index src i b =
     (case tensor_get src (int i) of
        Inl e \<Rightarrow> (b, Some e)
      | Inr v \<Rightarrow>
          (case tensors b name of
             None \<Rightarrow> (b, Some AttributeError)
           | Some t \<Rightarrow>
               (case tensor_set t index v of
                  Inl e \<Rightarrow> (b, Some e)
                | Inr t' \<Rightarrow> (b\<lparr>tensors := (tensors b)(name \<mapsto> t')\<rparr>, None))))"

definition store_opt :: "string \<Rightarrow> int \<Rightarrow> 'a list option \<Rightarrow> nat \<Rightarrow> 'a Buffer \<Rightarrow> 'a Buffer \<times> error option" where
  "store_opt name index src i b =
     (case src of None \<Rightarrow> (b, None) | Some t \<Rightarrow> store_item name index t i b)"

definition Buffer_add_item ::
  "'a list \<Rightarrow> 'a list option \<Rightarrow> 'a list option \<Rightarrow> 'a list option \<Rightarrow> nat \<Rightarrow> 'a Buffer
     \<Rightarrow> 'a Buffer \<times> error option" where
  \<comment> \<open>The body of the loop of \<open>Buffer.add_data\<close> for the item \<open>i\<close> of the batch.\<close>
  "Buffer_add_item examples labels logits task_labels i b =
     (case fifo (num_seen_examples b) (buffer_size b) of
        Inl e \<Rightarrow> (b, Some e)
      | Inr index \<Rightarrow>
          let b1 = b\<lparr>num_seen_examples := num_seen_examples b + 1\<rparr>
          in if index \<ge> 0 then
               and_then (and_then (and_then
                 (store_item ''examples'' index examples i b1)
                 (store_opt ''labels'' index labels i))
                 (store_opt ''logits'' index logits i))
                 (store_opt ''task_labels'' index task_labels i)
             else (b1, None))"

fun for_each :: "('i \<Rightarrow> 's \<Rightarrow> 's \<times> error option) \<Rightarrow> 'i list \<Rightarrow> 's \<Rightarrow> 's \<times> error option" where
  \<comment> \<open>A loop, or a sequence of calls, that stops at the first exception.\<close>
  "for_each body [] s = (s, None)"
| "for_each body (i # is) s = and_then (body i s) (for_each body is)"

definition Buffer_add_data ::
  "'a list \<Rightarrow> 'a list option \<Rightarrow> 'a list option \<Rightarrow> 'a list option \<Rightarrow> 'a::zero Buffer
     \<Rightarrow> 'a Buffer \<times> error option" where
  "Buffer_add_data examples labels logits task_labels b =
     and_then
       (if tensors b ''examples'' = None then
          init_tensors [''examples'' \<mapsto> Some examples, ''labels'' \<mapsto> labels,
                        ''logits'' \<mapsto> logits, ''task_labels'' \<mapsto> task_labels] b
        else (b, None))
       (for_each (Buffer_add_item examples labels logits task_labels) [0..<length examples])"

definition tensor_gather :: "'a list \<Rightarrow> nat list \<Rightarrow> error + 'a list" where
  \<comment> \<open>\<open>t[choice]\<close> for an array of non-negative indices.\<close>
  "tensor_gather t idxs =
     (if list_all (\<lambda>j. j < length t) idxs then Inr (map ((!) t) idxs) else Inl IndexError)"

fun gather_attrs :: "string list \<Rightarrow> (string \<rightharpoonup> 'a list) \<Rightarrow> ('a list \<Rightarrow> error + 'a list) \<Rightarrow> error + 'a list list" where
  \<comment> \<open>\<open>for attr_str in ...: if hasattr(self, attr_str): ret_tuple += (sel(attr),)\<close>\<close>
  "gather_attrs [] ts sel = Inr []"
| "gather_attrs (attr_str # rest) ts sel =
     (case ts attr_str of
        None \<Rightarrow> gather_attrs rest ts sel
      | Some attr \<Rightarrow>
          (case sel attr of
             Inl e \<Rightarrow> Inl e
           | Inr rows \<Rightarrow>
               (case gather_attrs rest ts sel of
                  Inl e \<Rightarrow> Inl e
                | Inr others \<Rightarrow> Inr (rows # others))))"

definition apply_transform :: "('a \<Rightarrow> 'a) option \<Rightarrow> 'a \<Rightarrow> 'a" where
  \<comment> \<open>\<open>if transform is None: transform = lambda x: x\<close>\<close>
  "apply_transform transform = (case transform of None \<Rightarrow> (\<lambda>x. x) | Some f \<Rightarrow> f)"

record 'a sample =
  choice :: "nat list"
  ret_tuple :: "'a list list"

definition get_data_for :: "('a \<Rightarrow> 'a) option \<Rightarrow> 'a Buffer \<Rightarrow> 'a list \<Rightarrow> nat list \<Rightarrow> error + 'a sample" where
  \<comment> \<open>The part of \<open>Buffer.get_data\<close> after the draw of \<open>choice\<close>.\<close>
  "get_data_for transform b examples ch =
     (case tensor_gather examples ch of
        Inl e \<Rightarrow> Inl e
      | Inr rows \<Rightarrow>
          (case torch_stack (map (apply_transform transform) rows) of
             Inl e \<Rightarrow> Inl e
           | Inr first \<Rightarrow>
               (case gather_attrs (tl (attributes b)) (tensors b) (\<lambda>attr. tensor_gather attr ch) of
                  Inl e \<Rightarrow> Inl e
                | Inr others \<Rightarrow> Inr \<lparr>choice = ch, ret_tuple = first # others\<rparr>)))"

definition Buffer_get_data :: "int \<Rightarrow> ('a \<Rightarrow> 'a) option \<Rightarrow> 'a Buffer \<Rightarrow> (error + 'a sample) list" where
  \<comment> \<open>The equally likely results of one call; \<open>choice\<close> records the indices drawn.\<close>
  "Buffer_get_data sz transform b =
     (case tensors b ''examples'' of
        None \<Rightarrow> [Inl AttributeError]
      | Some examples \<Rightarrow>
          let n = min (num_seen_examples b) (int (length examples));
              sz' = (if sz > n then n else sz)
          in case random_choice n sz' of
               Inl e \<Rightarrow> [Inl e]
             | Inr choices \<Rightarrow> map (get_data_for transform b examples) choices)"

definition is_empty :: "'a Buffer \<Rightarrow> bool" where
  "is_empty b = (if num_seen_examples b = 0 then True else False)"

definition get_all_data :: "('a \<Rightarrow> 'a) option \<Rightarrow> 'a Buffer \<Rightarrow> error + 'a list list" where
  \<comment> \<open>The body of \<open>get_all_data\<close>, which is the same text in both classes.\<close>
  "get_all_data transform b =
     (case tensors b ''examples'' of
        None \<Rightarrow> Inl AttributeError
      | Some examples \<Rightarrow>
          (case torch_stack (map (apply_transform transform) examples) of
             Inl e \<Rightarrow> Inl e
           | Inr first \<Rightarrow>
               (case gather_attrs (tl (attributes b)) (tensors b) Inr of
                  Inl e \<Rightarrow> Inl e
                | Inr others \<Rightarrow> Inr (first # others))))"

definition Buffer_get_all_data :: "('a \<Rightarrow> 'a) option \<Rightarrow> 'a Buffer \<Rightarrow> error + 'a list list" where
  "Buffer_get_all_data = get_all_data"

definition BufferFIFO_get_all_data :: "('a \<Rightarrow> 'a) option \<Rightarrow> 'a Buffer \<Rightarrow> error + 'a list list" where
  "BufferFIFO_get_all_data = get_all_data"

definition Buffer_empty :: "'a Buffer \<Rightarrow> 'a Buffer" where
  \<comment> \<open>The body of \<open>empty\<close>, which is the same text in both classes.\<close>
  "Buffer_empty b =
     b\<lparr>tensors := fold (\<lambda>attr_str ts. ts(attr_str := None)) (attributes b) (tensors b),
       num_seen_examples := 0\<rparr>"

definition BufferFIFO_add_data ::
  "'a \<Rightarrow> 'a list option \<Rightarrow> 'a list option \<Rightarrow> 'a list option \<Rightarrow> 'a::zero Buffer
     \<Rightarrow> 'a Buffer \<times> error option" where
  \<comment> \<open>\<open>losses\<close> is the value of one slot; for the allocation only its shape matters.\<close>
  "BufferFIFO_add_data losses labels logits task_labels b =
     and_then
       (if tensors b ''losses'' = None then
          init_tensors [''losses'' \<mapsto> Some [losses], ''labels'' \<mapsto> labels,
                        ''logits'' \<mapsto> logits, ''task_labels'' \<mapsto> task_labels] b
        else (b, None))
       (\<lambda>b. case tensors b ''losses'' of
               None \<Rightarrow> (b, Some AttributeError)
             | Some t \<Rightarrow>
                 (case tensor_set t (num_seen_examples b) losses of
                    Inl e \<Rightarrow> (b, Some e)
                  | Inr t' \<Rightarrow>
                      (b\<lparr>tensors := (tensors b)(''losses'' \<mapsto> t'),
                         num_seen_examples := num_seen_examples b + 1\<rparr>, None)))"

definition wf_buffer :: "'a Buffer \<Rightarrow> bool" where
  \<comment> \<open>The invariant of both classes: every tensor has \<open>buffer_size\<close> rows.\<close>
  "wf_buffer b \<longleftrightarrow>
     0 \<le> num_seen_examples b \<and>
     (\<forall>name t. tensors b name = Some t \<longrightarrow> 0 \<le> buffer_size b \<and> length t = nat (buffer_size b))"

text \<open>
  The states a program can bring an object to: the constructor, then any calls of the
  methods that change the object. A call that raises leaves a state too.
\<close>

inductive Buffer_reachable :: "'a::zero Buffer \<Rightarrow> bool" where
  Buffer_reachable_init:
    "Buffer_init bsize n_tasks mode = Inr b \<Longrightarrow> Buffer_reachable b"
| Buffer_reachable_add_data:
    "Buffer_reachable b \<Longrightarrow>
     Buffer_reachable (fst (Buffer_add_data examples labels logits task_labels b))"
| Buffer_reachable_empty:
    "Buffer_reachable b \<Longrightarrow> Buffer_reachable (Buffer_empty b)"

inductive BufferFIFO_reachable :: "'a::zero Buffer \<Rightarrow> bool" where
  BufferFIFO_reachable_init:
    "BufferFIFO_init bsize n_tasks mode = Inr b \<Longrightarrow> BufferFIFO_reachable b"
| BufferFIFO_reachable_add_data:
    "BufferFIFO_reachable b \<Longrightarrow>
     BufferFIFO_reachable (fst (BufferFIFO_add_data losses labels logits task_labels b))"
| BufferFIFO_reachable_empty:
    "BufferFIFO_reachable b \<Longrightarrow> BufferFIFO_reachable (Buffer_empty b)"

subsection \<open>The windowed view \<open>StreamDataset\<close>\<close>

text \<open>
  Python binds the arguments of a call to the parameters by position and checks only
  their number, so the fields of the view hold values of any kind, and a field of the
  wrong kind fails when it is used.
\<close>

datatype ('a, 'l) pyval =
  PyNone | PyBool bool | PyInt int | PyTensor "'a list" | PyList "'l list"

record ('a, 'l) StreamDataset =
  ds_x :: "('a, 'l) pyval"
  ds_y :: "('a, 'l) pyval"
  ds_logits :: "('a, 'l) pyval"
  ds_seq_len :: "('a, 'l) pyval"
  ds_pred_len :: "('a, 'l) pyval"
  ds_sample_freq :: "('a, 'l) pyval"
  ds_fast_mode :: "('a, 'l) pyval"

fun StreamDataset_init :: "('a, 'l) pyval list \<Rightarrow> error + ('a, 'l) StreamDataset" where
  \<comment> \<open>\<open>__init__(self, x, y, logits, seq_len, pred_len, sample_freq, fast_mode=True)\<close>
      called with the given arguments: six parameters have no default. An argument
      passed as \<open>fast_mode=...\<close> binds the seventh parameter, as a seventh positional
      argument does.\<close>
  "StreamDataset_init [x, y, logits, seq_len, pred_len, sample_freq] =
     Inr \<lparr>ds_x = x, ds_y = y, ds_logits = logits, ds_seq_len = seq_len,
          ds_pred_len = pred_len, ds_sample_freq = sample_freq, ds_fast_mode = PyBool True\<rparr>"
| "StreamDataset_init [x, y, logits, seq_len, pred_len, sample_freq, fast_mode] =
     Inr \<lparr>ds_x = x, ds_y = y, ds_logits = logits, ds_seq_len = seq_len,
          ds_pred_len = pred_len, ds_sample_freq = sample_freq, ds_fast_mode = fast_mode\<rparr>"
| "StreamDataset_init args = Inl TypeError"

fun truthy :: "('a, 'l) pyval \<Rightarrow> error + bool" where
  \<comment> \<open>The truth value of \<open>if v:\<close>. That of a tensor depends on its elements, which the
      model does not look into, so a tensor is refused here.\<close>
  "truthy PyNone = Inr False"
| "truthy (PyBool b) = Inr b"
| "truthy (PyInt i) = Inr (i \<noteq> 0)"
| "truthy (PyList l) = Inr (l \<noteq> [])"
| "truthy (PyTensor t) = Inl RuntimeError"

fun size1 :: "('a, 'l) pyval \<Rightarrow> error + int" where
  \<comment> \<open>\<open>v.size(1)\<close>: the number of time steps of a series.\<close>
  "size1 (PyTensor t) = Inr (int (length t))"
| "size1 v = Inl AttributeError"

fun as_int :: "('a, 'l) pyval \<Rightarrow> error + int" where
  \<comment> \<open>An operand of the integer arithmetic of \<open>__len__\<close>. Arithmetic on a tensor
      operand is not modelled: no call in the module binds one to these parameters.\<close>
  "as_int (PyInt i) = Inr i"
| "as_int (PyBool b) = Inr (if b then 1 else 0)"
| "as_int v = Inl TypeError"

definition StreamDataset_len :: "('a, 'l) StreamDataset \<Rightarrow> error + int" where
  \<comment> \<open>The method \<open>__len__\<close>.\<close>
  "StreamDataset_len ds =
     (case truthy (ds_fast_mode ds) of
        Inl e \<Rightarrow> Inl e
      | Inr fast \<Rightarrow>
          (case size1 (ds_x ds) of
             Inl e \<Rightarrow> Inl e
           | Inr n \<Rightarrow>
               (case as_int (ds_seq_len ds) of
                  Inl e \<Rightarrow> Inl e
                | Inr sl \<Rightarrow>
                    if fast then Inr (n - sl)
                    else (case as_int (ds_pred_len ds) of
                            Inl e \<Rightarrow> Inl e
                          | Inr pl \<Rightarrow>
                              (case as_int (ds_sample_freq ds) of
                                 Inl e \<Rightarrow> Inl e
                               | Inr sf \<Rightarrow>
                                   (case py_floordiv (n - sl - pl) sf of
                                      Inl e \<Rightarrow> Inl e
                                    | Inr q \<Rightarrow> Inr (q + 1)))))))"

definition py_len :: "('a, 'l) StreamDataset \<Rightarrow> error + int" where
  \<comment> \<open>The builtin \<open>len(dataset)\<close>: it refuses a negative result of \<open>__len__\<close>.\<close>
  "py_len ds =
     (case StreamDataset_len ds of
        Inl e \<Rightarrow> Inl e
      | Inr n \<Rightarrow> if n < 0 then Inl ValueError else Inr n)"

record ('a, 'l) DataLoader =
  dataset :: "('a, 'l) StreamDataset"
  batch_size :: int
  shuffle :: bool
  drop_last :: bool

definition get_loader :: "int \<Rightarrow> ('a, 'l) StreamDataset \<Rightarrow> error + ('a, 'l) DataLoader" where
  \<comment> \<open>The part of \<open>get_data\<close> after the construction of the view, the same text in both
      stream buffers. The loader is an external class: it is the record of its arguments,
      and its own checks of them are not modelled.\<close>
  "get_loader sz ds =
     (case py_len ds of
        Inl e \<Rightarrow> Inl e
      | Inr n \<Rightarrow>
          Inr \<lparr>dataset = ds, batch_size = (if sz > n then n else sz),
               shuffle = True, drop_last = False\<rparr>)"

definition opt_tensor :: "'a list option \<Rightarrow> ('a, 'l) pyval" where
  "opt_tensor t = (case t of None \<Rightarrow> PyNone | Some xs \<Rightarrow> PyTensor xs)"

subsection \<open>The stream buffers\<close>

record 'a FastStreamBuffer =
  fast_buffer_size :: int
  fast_seq_len :: int
  fast_pred_len :: int
  fast_x :: "'a list option"  \<comment> \<open>\<open>None\<close> is Python's \<open>None\<close>\<close>
  fast_y :: "'a list option"  \<comment> \<open>\<open>None\<close>: the attribute \<open>y\<close> is not set yet\<close>
  fast_length :: int

definition FastStreamBuffer_init :: "int \<Rightarrow> int \<Rightarrow> int \<Rightarrow> 'a FastStreamBuffer" where
  "FastStreamBuffer_init bsize seq_len pred_len =
     \<lparr>fast_buffer_size = bsize, fast_seq_len = seq_len, fast_pred_len = pred_len,
      fast_x = None, fast_y = None, fast_length = 0\<rparr>"

definition FastStreamBuffer_add_data :: "'a list \<Rightarrow> 'a list \<Rightarrow> 'a FastStreamBuffer \<Rightarrow> 'a FastStreamBuffer" where
  "FastStreamBuffer_add_data x pred b =
     (case fast_x b of
        None \<Rightarrow> b\<lparr>fast_x := Some x, fast_y := Some pred, fast_length := 0\<rparr>
      | Some xs \<Rightarrow>
          let xs1 = (if fast_length b \<ge> fast_buffer_size b then slice_from 1 xs else xs);
              xs2 = xs1 @ slice_from (- 1) x
          in b\<lparr>fast_x := Some xs2, fast_y := Some (xs2 @ pred),
               fast_length := int (length xs2) - fast_seq_len b\<rparr>)"

definition FastStreamBuffer_get_data :: "int \<Rightarrow> 'a FastStreamBuffer \<Rightarrow> error + ('a, 'l) DataLoader" where
  "FastStreamBuffer_get_data sz b =
     (case fast_y b of
        None \<Rightarrow> Inl AttributeError
      | Some y \<Rightarrow>
          (case StreamDataset_init
                  [opt_tensor (fast_x b), PyTensor y, PyInt (fast_seq_len b), PyInt (fast_pred_len b)] of
             Inl e \<Rightarrow> Inl e
           | Inr ds \<Rightarrow> get_loader sz ds))"

definition FastStreamBuffer_clear :: "'a FastStreamBuffer \<Rightarrow> 'a FastStreamBuffer" where
  "FastStreamBuffer_clear b = b\<lparr>fast_x := None, fast_length := 0\<rparr>"

inductive FastStreamBuffer_reachable :: "'a FastStreamBuffer \<Rightarrow> bool" where
  Fast_reachable_init:
    "FastStreamBuffer_reachable (FastStreamBuffer_init bsize seq_len pred_len)"
| Fast_reachable_add_data:
    "FastStreamBuffer_reachable b \<Longrightarrow> FastStreamBuffer_reachable (FastStreamBuffer_add_data x pred b)"
| Fast_reachable_clear:
    "FastStreamBuffer_reachable b \<Longrightarrow> FastStreamBuffer_reachable (FastStreamBuffer_clear b)"

record ('a, 'l) SlowStreamBuffer =
  slow_buffer_size :: int
  slow_seq_len :: int
  slow_pred_len :: int
  slow_sample_freq :: int
  slow_x :: "'a list option"
  slow_length :: int
  slow_logits :: "'l list"

definition SlowStreamBuffer_init :: "int \<Rightarrow> int \<Rightarrow> int \<Rightarrow> int \<Rightarrow> ('a, 'l) SlowStreamBuffer" where
  "SlowStreamBuffer_init bsize seq_len pred_len sample_freq =
     \<lparr>slow_buffer_size = bsize, slow_seq_len = seq_len, slow_pred_len = pred_len,
      slow_sample_freq = sample_freq, slow_x = None, slow_length = 0, slow_logits = []\<rparr>"

definition SlowStreamBuffer_add_data ::
  "'a list \<Rightarrow> 'l \<Rightarrow> ('a, 'l) SlowStreamBuffer \<Rightarrow> ('a, 'l) SlowStreamBuffer \<times> error option" where
  "SlowStreamBuffer_add_data x logits b =
     (case slow_x b of
        None \<Rightarrow> (b\<lparr>slow_x := Some x, slow_logits := [logits], slow_length := 0\<rparr>, None)
      | Some xs \<Rightarrow>
          let full = (slow_length b \<ge> slow_buffer_size b);
              xs1 = (if full then slice_from (slow_sample_freq b) xs else xs);
              ls1 = (if full then slice_from 1 (slow_logits b) else slow_logits b);
              xs2 = xs1 @ slice_from (- slow_sample_freq b) x;
              b2 = b\<lparr>slow_x := Some xs2, slow_logits := ls1 @ [logits]\<rparr>;
              d = int (length xs2) - slow_seq_len b - slow_pred_len b
          in if d \<ge> 0 then
               (case py_floordiv d (slow_sample_freq b) of
                  Inl e \<Rightarrow> (b2, Some e)
                | Inr q \<Rightarrow> (b2\<lparr>slow_length := q + 1\<rparr>, None))
             else (b2\<lparr>slow_length := 0\<rparr>, None))"

definition SlowStreamBuffer_get_data :: "int \<Rightarrow> ('a, 'l) SlowStreamBuffer \<Rightarrow> error + ('a, 'l) DataLoader" where
  "SlowStreamBuffer_get_data sz b =
     (case StreamDataset_init
             [opt_tensor (slow_x b), opt_tensor (slow_x b), PyList (slow_logits b),
              PyInt (slow_seq_len b), PyInt (slow_pred_len b), PyInt (slow_sample_freq b),
              PyBool False] of
        Inl e \<Rightarrow> Inl e
      | Inr ds \<Rightarrow> get_loader sz ds)"

definition SlowStreamBuffer_clear :: "('a, 'l) SlowStreamBuffer \<Rightarrow> ('a, 'l) SlowStreamBuffer" where
  "SlowStreamBuffer_clear b = b\<lparr>slow_x := None, slow_logits := [], slow_length := 0\<rparr>"

inductive SlowStreamBuffer_reachable :: "('a, 'l) SlowStreamBuffer \<Rightarrow> bool" where
  Slow_reachable_init:
    "SlowStreamBuffer_reachable (SlowStreamBuffer_init bsize seq_len pred_len sample_freq)"
| Slow_reachable_add_data:
    "SlowStreamBuffer_reachable b \<Longrightarrow>
     SlowStreamBuffer_reachable (fst (SlowStreamBuffer_add_data x logits b))"
| Slow_reachable_clear:
    "SlowStreamBuffer_reachable b \<Longrightarrow> SlowStreamBuffer_reachable (SlowStreamBuffer_clear b)"

subsection \<open>What the specification says of a batch\<close>

fun spec_fifo_writes :: "int \<Rightarrow> int \<Rightarrow> 'a list \<Rightarrow> 'a list \<Rightarrow> 'a list" where
  \<comment> \<open>Written from the words of the specification, not from the code: each item of a
      batch in turn goes to the slot \<open>count mod capacity\<close>, and the count goes up by one.
      The result is the tensor after the whole batch.\<close>
  "spec_fifo_writes n bsize [] t = t"
| "spec_fifo_writes n bsize (item # items) t =
     spec_fifo_writes (n + 1) bsize items (t[nat (n mod bsize) := item])"

subsection \<open>Example objects\<close>

definition example_Buffer :: "int Buffer" where
  \<comment> \<open>What \<open>Buffer(3, device, n_tasks=1, mode='fifo')\<close> constructs.\<close>
  "example_Buffer =
     \<lparr>buffer_size = 3, num_seen_examples = 0, functional_index = ''fifo'',
      task_number = None, buffer_portion_size = None,
      attributes = [''examples'', ''labels'', ''logits'', ''task_labels''],
      tensors = Map.empty\<rparr>"

definition example_BufferFIFO :: "int Buffer" where
  \<comment> \<open>What \<open>BufferFIFO(3, device, n_tasks=1, mode='reservoir')\<close> constructs.\<close>
  "example_BufferFIFO =
     \<lparr>buffer_size = 3, num_seen_examples = 0, functional_index = ''reservoir'',
      task_number = None, buffer_portion_size = None,
      attributes = [''losses''], tensors = Map.empty\<rparr>"

definition example_dense_view :: "(int, int) StreamDataset" where
  \<comment> \<open>A dense view of a series of two time steps with \<open>seq_len = 5\<close>.\<close>
  "example_dense_view =
     \<lparr>ds_x = PyTensor [1, 2], ds_y = PyTensor [1, 2], ds_logits = PyList [],
      ds_seq_len = PyInt 5, ds_pred_len = PyInt 1, ds_sample_freq = PyInt 1,
      ds_fast_mode = PyBool True\<rparr>"

definition example_FastStreamBuffer :: "int FastStreamBuffer" where
  \<comment> \<open>\<open>FastStreamBuffer(2, 1, 1, device)\<close> after \<open>add_data\<close> of a series of three steps.\<close>
  "example_FastStreamBuffer =
     FastStreamBuffer_add_data [1, 2, 3] [4] (FastStreamBuffer_init 2 1 1)"

definition example_FastStreamBuffer2 :: "int FastStreamBuffer" where
  \<comment> \<open>The same buffer after a second \<open>add_data\<close>: its length has reached the capacity.\<close>
  "example_FastStreamBuffer2 = FastStreamBuffer_add_data [6] [8] example_FastStreamBuffer"

definition example_BufferFIFO_full :: "int Buffer" where
  \<comment> \<open>The example \<open>BufferFIFO\<close> after three calls of \<open>add_data\<close>: it is full.\<close>
  "example_BufferFIFO_full =
     fst (for_each (\<lambda>v. BufferFIFO_add_data v None None None) [5, 6, 7] example_BufferFIFO)"

definition example_Buffer_scenario :: "int Buffer \<times> error option" where
  \<comment> \<open>Five calls \<open>add_data(examples=[v], labels=[v])\<close> on the example \<open>Buffer\<close>.\<close>
  "example_Buffer_scenario =
     for_each (\<lambda>v. Buffer_add_data [v] (Some [v]) None None) [10, 20, 30, 40, 50] example_Buffer"

definition example_Buffer1 :: "int Buffer" where
  \<comment> \<open>The example \<open>Buffer\<close> after the first of these calls.\<close>
  "example_Buffer1 = fst (Buffer_add_data [10] (Some [10]) None None example_Buffer)"

definition example_SlowStreamBuffer :: "(int, int) SlowStreamBuffer" where
  \<comment> \<open>\<open>SlowStreamBuffer(1, 2, 1, 2)\<close> after two calls of \<open>add_data\<close>: its length has
      reached the capacity.\<close>
  "example_SlowStreamBuffer =
     fst (SlowStreamBuffer_add_data [5, 6] 200
       (fst (SlowStreamBuffer_add_data [1, 2, 3, 4] 100 (SlowStreamBuffer_init 1 2 1 2))))"

definition example_SlowStreamBuffer_short :: "(int, int) SlowStreamBuffer" where
  \<comment> \<open>\<open>SlowStreamBuffer(1, 1, 1, 3)\<close> after two calls of \<open>add_data\<close> with one time
      step each: its length has reached the capacity and its series has two time steps.\<close>
  "example_SlowStreamBuffer_short =
     fst (SlowStreamBuffer_add_data [2] 20
       (fst (SlowStreamBuffer_add_data [1] 10 (SlowStreamBuffer_init 1 1 1 3))))"

definition example_SlowStreamBuffer_clamped :: "(int, int) SlowStreamBuffer" where
  \<comment> \<open>\<open>SlowStreamBuffer(1, 2, 3, 1)\<close> after two calls of \<open>add_data\<close>: its series of three
      time steps is shorter than \<open>seq_len + pred_len\<close>.\<close>
  "example_SlowStreamBuffer_clamped =
     fst (SlowStreamBuffer_add_data [3] 20
       (fst (SlowStreamBuffer_add_data [1, 2] 10 (SlowStreamBuffer_init 1 2 3 1))))"

section \<open>Properties\<close>

subsection \<open>Sequencing and invariants of the slot buffers\<close>

lemma and_then_None [simp]: "and_then (s, None) f = f s"
  by (simp add: and_then_def)

lemma and_then_Some [simp]: "and_then (s, Some e) f = (s, Some e)"
  by (simp add: and_then_def)

lemma and_then_preserves:
  assumes "P (fst r)" and "\<And>s. P s \<Longrightarrow> P (fst (f s))"
  shows "P (fst (and_then r f))"
  using assms by (cases r) (auto simp: and_then_def split: option.splits)

lemma for_each_preserves:
  assumes "\<And>i s. P s \<Longrightarrow> P (fst (body i s))" and "P s"
  shows "P (fst (for_each body is s))"
  using assms(2)
proof (induction "is" arbitrary: s)
  case Nil
  then show ?case by simp
next
  case (Cons i "is")
  show ?case
    unfolding for_each.simps
    by (rule and_then_preserves) (simp_all add: assms(1) Cons)
qed

lemma init_tensors_loop_fields:
  "buffer_size (fst (init_tensors_loop as env b)) = buffer_size b \<and>
   attributes (fst (init_tensors_loop as env b)) = attributes b \<and>
   num_seen_examples (fst (init_tensors_loop as env b)) = num_seen_examples b"
  by (induction as env b rule: init_tensors_loop.induct)
     (auto split: option.splits sum.splits)

lemma init_tensors_loop_wf:
  "wf_buffer b \<Longrightarrow> wf_buffer (fst (init_tensors_loop as env b))"
proof (induction as env b rule: init_tensors_loop.induct)
  case (1 env b)
  then show ?case by simp
next
  case (2 attr_str rest env b)
  show ?case
  proof (cases "env attr_str")
    case None
    then show ?thesis using 2 by simp
  next
    case (Some attr)
    show ?thesis
    proof (cases "attr \<noteq> None \<and> tensors b attr_str = None")
      case False
      then show ?thesis using 2 Some by auto
    next
      case True
      show ?thesis
      proof (cases "torch_zeros (buffer_size b) :: error + 'a list")
        case (Inl e)
        then show ?thesis using 2 Some True by simp
      next
        case (Inr z)
        then have z: "0 \<le> buffer_size b" "length z = nat (buffer_size b)"
          by (auto simp: torch_zeros_def split: if_splits)
        have "wf_buffer (b\<lparr>tensors := (tensors b)(attr_str \<mapsto> z)\<rparr>)"
          using "2.prems" z by (auto simp: wf_buffer_def)
        then show ?thesis using "2.IH"(1)[OF Some True Inr] Some True Inr by simp
      qed
    qed
  qed
qed

lemma init_tensors_loop_other:
  "name \<notin> set as \<Longrightarrow> tensors (fst (init_tensors_loop as env b)) name = tensors b name"
  by (induction as env b rule: init_tensors_loop.induct)
     (auto split: option.splits sum.splits)

lemma store_item_fields:
  "buffer_size (fst (store_item name index src i b)) = buffer_size b \<and>
   attributes (fst (store_item name index src i b)) = attributes b \<and>
   num_seen_examples (fst (store_item name index src i b)) = num_seen_examples b"
  by (simp add: store_item_def split: sum.splits option.splits)

lemma store_item_wf:
  "wf_buffer b \<Longrightarrow> wf_buffer (fst (store_item name index src i b))"
  by (auto simp: store_item_def wf_buffer_def tensor_set_def split: sum.splits option.splits)

lemma store_item_other:
  "name' \<noteq> name \<Longrightarrow> tensors (fst (store_item name index src i b)) name' = tensors b name'"
  by (simp add: store_item_def split: sum.splits option.splits)

lemma store_opt_fields:
  "buffer_size (fst (store_opt name index src i b)) = buffer_size b \<and>
   attributes (fst (store_opt name index src i b)) = attributes b \<and>
   num_seen_examples (fst (store_opt name index src i b)) = num_seen_examples b"
  by (simp add: store_opt_def store_item_fields split: option.splits)

lemma store_opt_wf:
  "wf_buffer b \<Longrightarrow> wf_buffer (fst (store_opt name index src i b))"
  by (simp add: store_opt_def store_item_wf split: option.splits)

lemma store_opt_other:
  "name' \<noteq> name \<Longrightarrow> tensors (fst (store_opt name index src i b)) name' = tensors b name'"
  by (simp add: store_opt_def store_item_other split: option.splits)

lemma Buffer_add_item_fields:
  "buffer_size (fst (Buffer_add_item exs lab lg tk i b)) = buffer_size b \<and>
   attributes (fst (Buffer_add_item exs lab lg tk i b)) = attributes b"
proof -
  let ?Q = "\<lambda>s::'a Buffer. buffer_size s = buffer_size b \<and> attributes s = attributes b"
  show ?thesis
  proof (cases "fifo (num_seen_examples b) (buffer_size b)")
    case (Inl e)
    then show ?thesis by (simp add: Buffer_add_item_def)
  next
    case (Inr index)
    have "?Q (fst (and_then (and_then (and_then
                 (store_item ''examples'' index exs i (b\<lparr>num_seen_examples := num_seen_examples b + 1\<rparr>))
                 (store_opt ''labels'' index lab i))
                 (store_opt ''logits'' index lg i))
                 (store_opt ''task_labels'' index tk i)))"
      by (intro and_then_preserves[where P = ?Q]) (simp_all add: store_item_fields store_opt_fields)
    then show ?thesis using Inr by (simp add: Buffer_add_item_def Let_def)
  qed
qed

lemma Buffer_add_item_wf:
  assumes "wf_buffer b"
  shows "wf_buffer (fst (Buffer_add_item exs lab lg tk i b))"
proof (cases "fifo (num_seen_examples b) (buffer_size b)")
  case (Inl e)
  then show ?thesis using assms by (simp add: Buffer_add_item_def)
next
  case (Inr index)
  have b1: "wf_buffer (b\<lparr>num_seen_examples := num_seen_examples b + 1\<rparr>)"
    using assms by (simp add: wf_buffer_def)
  have "wf_buffer (fst (and_then (and_then (and_then
               (store_item ''examples'' index exs i (b\<lparr>num_seen_examples := num_seen_examples b + 1\<rparr>))
               (store_opt ''labels'' index lab i))
               (store_opt ''logits'' index lg i))
               (store_opt ''task_labels'' index tk i)))"
    by (intro and_then_preserves[where P = wf_buffer]) (simp_all add: store_item_wf store_opt_wf b1)
  then show ?thesis using Inr b1 by (simp add: Buffer_add_item_def Let_def)
qed

lemma Buffer_add_data_fields:
  "buffer_size (fst (Buffer_add_data exs lab lg tk b)) = buffer_size b \<and>
   attributes (fst (Buffer_add_data exs lab lg tk b)) = attributes b"
proof -
  let ?Q = "\<lambda>s::'a Buffer. buffer_size s = buffer_size b \<and> attributes s = attributes b"
  have "?Q (fst (Buffer_add_data exs lab lg tk b))"
    unfolding Buffer_add_data_def
  proof (rule and_then_preserves[where P = ?Q])
    show "?Q (fst (if tensors b ''examples'' = None
            then init_tensors [''examples'' \<mapsto> Some exs, ''labels'' \<mapsto> lab, ''logits'' \<mapsto> lg, ''task_labels'' \<mapsto> tk] b
            else (b, None)))"
      by (simp add: init_tensors_def init_tensors_loop_fields)
  next
    fix s :: "'a Buffer" assume "?Q s"
    then show "?Q (fst (for_each (Buffer_add_item exs lab lg tk) [0..<length exs] s))"
      by (rule for_each_preserves[where P = ?Q, rotated]) (simp add: Buffer_add_item_fields)
  qed
  then show ?thesis .
qed

lemma Buffer_add_data_wf:
  assumes "wf_buffer b"
  shows "wf_buffer (fst (Buffer_add_data exs lab lg tk b))"
  unfolding Buffer_add_data_def
proof (rule and_then_preserves[where P = wf_buffer])
  show "wf_buffer (fst (if tensors b ''examples'' = None
          then init_tensors [''examples'' \<mapsto> Some exs, ''labels'' \<mapsto> lab, ''logits'' \<mapsto> lg, ''task_labels'' \<mapsto> tk] b
          else (b, None)))"
    using assms by (simp add: init_tensors_def init_tensors_loop_wf)
next
  fix s :: "'a Buffer" assume "wf_buffer s"
  then show "wf_buffer (fst (for_each (Buffer_add_item exs lab lg tk) [0..<length exs] s))"
    by (rule for_each_preserves[where P = wf_buffer, rotated]) (simp add: Buffer_add_item_wf)
qed

lemma fold_remove_attr:
  "fold (\<lambda>attr_str ts. ts(attr_str := None)) as ts name = (if name \<in> set as then None else ts name)"
  by (induction as arbitrary: ts) auto

lemma Buffer_empty_wf: "wf_buffer b \<Longrightarrow> wf_buffer (Buffer_empty b)"
  by (auto simp: Buffer_empty_def wf_buffer_def fold_remove_attr)

lemma new_buffer_fresh:
  assumes "new_buffer modes attrs bsize n_tasks mode = Inr b"
  shows "buffer_size b = bsize \<and> num_seen_examples b = 0 \<and> attributes b = attrs \<and> tensors b = Map.empty"
  using assms
  by (auto simp: new_buffer_def Let_def split: if_splits option.splits sum.splits)

lemma Buffer_reachable_inv:
  assumes "Buffer_reachable b"
  shows "wf_buffer b \<and> attributes b = [''examples'', ''labels'', ''logits'', ''task_labels'']"
  using assms
proof (induction rule: Buffer_reachable.induct)
  case (Buffer_reachable_init bsize n_tasks mode b)
  then show ?case
    using new_buffer_fresh[of _ _ bsize n_tasks mode b]
    by (simp add: Buffer_init_def wf_buffer_def)
next
  case (Buffer_reachable_add_data b examples labels logits task_labels)
  then show ?case by (simp add: Buffer_add_data_wf Buffer_add_data_fields)
next
  case (Buffer_reachable_empty b)
  then show ?case by (simp add: Buffer_empty_wf) (simp add: Buffer_empty_def)
qed

lemma BufferFIFO_add_data_fields:
  "buffer_size (fst (BufferFIFO_add_data v lab lg tk b)) = buffer_size b \<and>
   attributes (fst (BufferFIFO_add_data v lab lg tk b)) = attributes b"
proof -
  let ?Q = "\<lambda>s::'a Buffer. buffer_size s = buffer_size b \<and> attributes s = attributes b"
  have "?Q (fst (BufferFIFO_add_data v lab lg tk b))"
    unfolding BufferFIFO_add_data_def
    by (rule and_then_preserves[where P = ?Q])
       (auto simp: init_tensors_def init_tensors_loop_fields split: option.splits sum.splits)
  then show ?thesis .
qed

lemma BufferFIFO_add_data_wf:
  assumes "wf_buffer b"
  shows "wf_buffer (fst (BufferFIFO_add_data v lab lg tk b))"
  unfolding BufferFIFO_add_data_def
proof (rule and_then_preserves[where P = wf_buffer])
  show "wf_buffer (fst (if tensors b ''losses'' = None
          then init_tensors [''losses'' \<mapsto> Some [v], ''labels'' \<mapsto> lab, ''logits'' \<mapsto> lg, ''task_labels'' \<mapsto> tk] b
          else (b, None)))"
    using assms by (simp add: init_tensors_def init_tensors_loop_wf)
next
  fix s :: "'a Buffer" assume "wf_buffer s"
  then show "wf_buffer (fst (case tensors s ''losses'' of
               None \<Rightarrow> (s, Some AttributeError)
             | Some t \<Rightarrow>
                 (case tensor_set t (num_seen_examples s) v of
                    Inl e \<Rightarrow> (s, Some e)
                  | Inr t' \<Rightarrow>
                      (s\<lparr>tensors := (tensors s)(''losses'' \<mapsto> t'),
                         num_seen_examples := num_seen_examples s + 1\<rparr>, None))))"
    by (auto simp: wf_buffer_def tensor_set_def split: option.splits sum.splits)
qed

lemma BufferFIFO_add_data_no_examples:
  assumes "attributes b = [''losses'']" and "tensors b ''examples'' = None"
  shows "tensors (fst (BufferFIFO_add_data v lab lg tk b)) ''examples'' = None"
proof -
  let ?Q = "\<lambda>s::'a Buffer. tensors s ''examples'' = None"
  have "?Q (fst (BufferFIFO_add_data v lab lg tk b))"
    unfolding BufferFIFO_add_data_def
    by (rule and_then_preserves[where P = ?Q])
       (auto simp: init_tensors_def init_tensors_loop_other assms split: option.splits sum.splits)
  then show ?thesis .
qed

lemma BufferFIFO_reachable_inv:
  assumes "BufferFIFO_reachable b"
  shows "wf_buffer b \<and> attributes b = [''losses''] \<and> tensors b ''examples'' = None"
  using assms
proof (induction rule: BufferFIFO_reachable.induct)
  case (BufferFIFO_reachable_init bsize n_tasks mode b)
  then show ?case
    using new_buffer_fresh[of _ _ bsize n_tasks mode b]
    by (simp add: BufferFIFO_init_def wf_buffer_def)
next
  case (BufferFIFO_reachable_add_data b losses labels logits task_labels)
  then show ?case
    by (simp add: BufferFIFO_add_data_wf BufferFIFO_add_data_fields BufferFIFO_add_data_no_examples)
next
  case (BufferFIFO_reachable_empty b)
  then show ?case by (simp add: Buffer_empty_wf) (simp add: Buffer_empty_def fold_remove_attr)
qed

lemma example_Buffer_init: "Buffer_init 3 (Some 1) ''fifo'' = Inr example_Buffer"
  by (simp add: Buffer_init_def new_buffer_def example_Buffer_def)

lemma example_BufferFIFO_init: "BufferFIFO_init 3 (Some 1) ''reservoir'' = Inr example_BufferFIFO"
  by (simp add: BufferFIFO_init_def new_buffer_def example_BufferFIFO_def)

subsection \<open>Reading a buffer that holds no \<open>examples\<close>\<close>

text \<open>
  C9. A \<open>Buffer\<close> as the constructor returns it, and any \<open>Buffer\<close> right after \<open>empty()\<close>,
  has no attribute \<open>examples\<close>: \<open>get_data\<close> and \<open>get_all_data\<close> raise \<open>AttributeError\<close>
  instead of returning a value, whatever the requested size and transform.
\<close>

theorem Buffer_get_before_add_raises:
  "(Buffer_init bsize n_tasks mode = Inr b \<longrightarrow>
      Buffer_get_data sz transform b = [Inl AttributeError] \<and>
      Buffer_get_all_data transform b = Inl AttributeError) \<and>
   (Buffer_reachable b' \<longrightarrow>
      Buffer_get_data sz transform (Buffer_empty b') = [Inl AttributeError] \<and>
      Buffer_get_all_data transform (Buffer_empty b') = Inl AttributeError)"
proof (intro conjI impI)
  assume "Buffer_init bsize n_tasks mode = Inr b"
  then have none: "tensors b ''examples'' = None"
    using new_buffer_fresh[of _ _ bsize n_tasks mode b] by (simp add: Buffer_init_def)
  show "Buffer_get_data sz transform b = [Inl AttributeError]"
    by (simp add: Buffer_get_data_def none)
  show "Buffer_get_all_data transform b = Inl AttributeError"
    by (simp add: Buffer_get_all_data_def get_all_data_def none)
next
  assume "Buffer_reachable b'"
  then have "attributes b' = [''examples'', ''labels'', ''logits'', ''task_labels'']"
    by (simp add: Buffer_reachable_inv)
  then have none: "tensors (Buffer_empty b') ''examples'' = None"
    by (simp add: Buffer_empty_def fold_remove_attr)
  show "Buffer_get_data sz transform (Buffer_empty b') = [Inl AttributeError]"
    by (simp add: Buffer_get_data_def none)
  show "Buffer_get_all_data transform (Buffer_empty b') = Inl AttributeError"
    by (simp add: Buffer_get_all_data_def get_all_data_def none)
qed

theorem Buffer_get_before_add_raises_witness:
  "Buffer_init 3 (Some 1) ''fifo'' = Inr example_Buffer \<and>
   Buffer_get_data 2 None example_Buffer = [Inl AttributeError] \<and>
   Buffer_get_all_data None example_Buffer = Inl AttributeError \<and>
   Buffer_reachable (fst (Buffer_add_data [10] (Some [10]) None None example_Buffer)) \<and>
   Buffer_get_data 2 None
     (Buffer_empty (fst (Buffer_add_data [10] (Some [10]) None None example_Buffer))) =
     [Inl AttributeError] \<and>
   Buffer_get_all_data None
     (Buffer_empty (fst (Buffer_add_data [10] (Some [10]) None None example_Buffer))) =
     Inl AttributeError"
proof -
  have r: "Buffer_reachable (fst (Buffer_add_data [10] (Some [10]) None None example_Buffer))"
    by (intro Buffer_reachable_add_data Buffer_reachable_init[OF example_Buffer_init])
  show ?thesis
    using example_Buffer_init r
      Buffer_get_before_add_raises[of 3 "Some 1" "''fifo''" example_Buffer 2 None
        "fst (Buffer_add_data [10] (Some [10]) None None example_Buffer)"]
    by simp
qed

subsection \<open>\<open>BufferFIFO.get_all_data\<close>\<close>

text \<open>
  C10. \<open>BufferFIFO.get_all_data\<close> reads the attribute \<open>examples\<close>, and no method of
  \<open>BufferFIFO\<close> ever creates one (its only tensor is \<open>losses\<close>): in every reachable state,
  also after \<open>add_data\<close>, the call raises \<open>AttributeError\<close> and returns no tuple.
\<close>

theorem BufferFIFO_get_all_data_raises:
  "BufferFIFO_reachable b \<Longrightarrow> BufferFIFO_get_all_data transform b = Inl AttributeError"
  by (simp add: BufferFIFO_get_all_data_def get_all_data_def BufferFIFO_reachable_inv)

theorem BufferFIFO_get_all_data_raises_witness:
  "BufferFIFO_reachable (fst (BufferFIFO_add_data 7 None None None example_BufferFIFO)) \<and>
   snd (BufferFIFO_add_data 7 None None None example_BufferFIFO) = None \<and>
   BufferFIFO_get_all_data None (fst (BufferFIFO_add_data 7 None None None example_BufferFIFO)) =
     Inl AttributeError"
proof -
  have r: "BufferFIFO_reachable (fst (BufferFIFO_add_data 7 None None None example_BufferFIFO))"
    by (intro BufferFIFO_reachable_add_data BufferFIFO_reachable_init[OF example_BufferFIFO_init])
  have ok: "snd (BufferFIFO_add_data 7 None None None example_BufferFIFO) = None"
    by (simp add: BufferFIFO_add_data_def example_BufferFIFO_def init_tensors_def
        torch_zeros_def tensor_set_def norm_index_def)
  show ?thesis
    using r ok BufferFIFO_get_all_data_raises[OF r, of None] by simp
qed

subsection \<open>The windowed view\<close>

lemma slice_from_1: "slice_from 1 xs = tl xs"
  by (simp add: slice_from_def drop_Suc)

lemma slice_from_last: "x \<noteq> [] \<Longrightarrow> slice_from (- 1) x = [last x]"
  by (cases x rule: rev_cases) (simp_all add: slice_from_def)

text \<open>
  The value of \<open>__len__\<close> on a view built from two series, a side-channel list, three
  integers and a flag: \<open>len(X) - seq_len\<close> in dense mode, and
  \<open>floor((len(X) - seq_len - pred_len) / sample_freq) + 1\<close> in strided mode when
  \<open>sample_freq\<close> is not zero. In dense mode it is non-negative exactly when
  \<open>seq_len \<le> len(X)\<close>, in strided mode with a positive \<open>sample_freq\<close> exactly when
  \<open>seq_len + pred_len - sample_freq \<le> len(X)\<close>.
\<close>

lemma StreamDataset_len_formula:
  assumes "StreamDataset_init [PyTensor X, PyTensor Y, PyList side, PyInt seq_len, PyInt pred_len,
             PyInt sample_freq, PyBool dense] = Inr ds"
  shows "(dense \<longrightarrow> StreamDataset_len ds = Inr (int (length X) - seq_len)) \<and>
         (\<not> dense \<and> sample_freq \<noteq> 0 \<longrightarrow>
            StreamDataset_len ds = Inr ((int (length X) - seq_len - pred_len) div sample_freq + 1)) \<and>
         (dense \<longrightarrow>
            (\<exists>n. StreamDataset_len ds = Inr n \<and> (0 \<le> n \<longleftrightarrow> seq_len \<le> int (length X)))) \<and>
         (\<not> dense \<and> 0 < sample_freq \<longrightarrow>
            (\<exists>n. StreamDataset_len ds = Inr n \<and>
                 (0 \<le> n \<longleftrightarrow> seq_len + pred_len - sample_freq \<le> int (length X))))"
proof -
  have ds: "ds = \<lparr>ds_x = PyTensor X, ds_y = PyTensor Y, ds_logits = PyList side,
                  ds_seq_len = PyInt seq_len, ds_pred_len = PyInt pred_len,
                  ds_sample_freq = PyInt sample_freq, ds_fast_mode = PyBool dense\<rparr>"
    using assms by simp
  have dense: "dense \<Longrightarrow> StreamDataset_len ds = Inr (int (length X) - seq_len)"
    by (simp add: ds StreamDataset_len_def)
  have strided: "\<not> dense \<Longrightarrow> sample_freq \<noteq> 0 \<Longrightarrow>
      StreamDataset_len ds = Inr ((int (length X) - seq_len - pred_len) div sample_freq + 1)"
    by (simp add: ds StreamDataset_len_def py_floordiv_def)
  have sign: "0 < sample_freq \<Longrightarrow>
      0 \<le> (int (length X) - seq_len - pred_len) div sample_freq + 1 \<longleftrightarrow>
      seq_len + pred_len - sample_freq \<le> int (length X)"
  proof -
    assume pos: "0 < sample_freq"
    have "(int (length X) - seq_len - pred_len) div sample_freq + 1 =
          (int (length X) - seq_len - pred_len + sample_freq) div sample_freq"
      using pos div_add_self2[of sample_freq "int (length X) - seq_len - pred_len"] by linarith
    then show ?thesis
      using pos_imp_zdiv_nonneg_iff[OF pos, of "int (length X) - seq_len - pred_len + sample_freq"]
      by linarith
  qed
  show ?thesis
    using dense strided sign by auto
qed

lemma StreamDataset_len_formula_example:
  "StreamDataset_init [PyTensor [1, 2, 3, 4, 5, 6, 7], PyTensor [1, 2, 3, 4, 5, 6, 7], PyList [0],
      PyInt 2, PyInt 1, PyInt 3, PyBool False] =
     Inr \<lparr>ds_x = PyTensor [1, 2, 3, 4, 5, 6, 7 :: int], ds_y = PyTensor [1, 2, 3, 4, 5, 6, 7],
          ds_logits = PyList [0 :: int], ds_seq_len = PyInt 2, ds_pred_len = PyInt 1,
          ds_sample_freq = PyInt 3, ds_fast_mode = PyBool False\<rparr> \<and>
   StreamDataset_len \<lparr>ds_x = PyTensor [1, 2, 3, 4, 5, 6, 7 :: int], ds_y = PyTensor [1, 2, 3, 4, 5, 6, 7],
          ds_logits = PyList [0 :: int], ds_seq_len = PyInt 2, ds_pred_len = PyInt 1,
          ds_sample_freq = PyInt 3, ds_fast_mode = PyBool False\<rparr> = Inr 2 \<and>
   StreamDataset_init [PyTensor [1, 2, 3, 4, 5, 6, 7], PyTensor [1, 2, 3, 4, 5, 6, 7], PyList [0],
      PyInt 2, PyInt 1, PyInt 3, PyBool True] =
     Inr \<lparr>ds_x = PyTensor [1, 2, 3, 4, 5, 6, 7 :: int], ds_y = PyTensor [1, 2, 3, 4, 5, 6, 7],
          ds_logits = PyList [0 :: int], ds_seq_len = PyInt 2, ds_pred_len = PyInt 1,
          ds_sample_freq = PyInt 3, ds_fast_mode = PyBool True\<rparr> \<and>
   StreamDataset_len \<lparr>ds_x = PyTensor [1, 2, 3, 4, 5, 6, 7 :: int], ds_y = PyTensor [1, 2, 3, 4, 5, 6, 7],
          ds_logits = PyList [0 :: int], ds_seq_len = PyInt 2, ds_pred_len = PyInt 1,
          ds_sample_freq = PyInt 3, ds_fast_mode = PyBool True\<rparr> = Inr 5"
  using StreamDataset_len_formula[of "[1, 2, 3, 4, 5, 6, 7 :: int]" "[1, 2, 3, 4, 5, 6, 7]"
      "[0 :: int]" 2 1 3 False]
    StreamDataset_len_formula[of "[1, 2, 3, 4, 5, 6, 7 :: int]" "[1, 2, 3, 4, 5, 6, 7]"
      "[0 :: int]" 2 1 3 True]
  by simp

text \<open>
  C7. The claim: the length of a view follows the two formulas and, where a formula is
  negative, is clamped to zero, so the length computation never returns a negative
  value and never raises. The code: \<open>__len__\<close> returns the formulas with no clamp. On a
  dense view of a series of two time steps with \<open>seq_len = 5\<close> it returns \<open>-3\<close>, and the
  builtin \<open>len\<close> then raises \<open>ValueError\<close>. \<open>SlowStreamBuffer.add_data\<close> clamps the same
  strided formula: on a series of three time steps with \<open>seq_len = 2\<close>, \<open>pred_len = 3\<close>
  and \<open>sample_freq = 1\<close> it stores the length \<open>0\<close>, while \<open>__len__\<close> of the view that
  \<open>get_data\<close> builds over that series is negative and \<open>get_data\<close> raises \<open>ValueError\<close>.
\<close>

theorem StreamDataset_len_negative:
  "StreamDataset_init [PyTensor [1, 2], PyTensor [1, 2], PyList [], PyInt 5, PyInt 1, PyInt 1,
      PyBool True] = Inr example_dense_view \<and>
   StreamDataset_len example_dense_view = Inr (- 3) \<and>
   py_len example_dense_view = Inl ValueError \<and>
   slow_x example_SlowStreamBuffer_clamped = Some [1, 2, 3] \<and>
   slow_length example_SlowStreamBuffer_clamped = 0 \<and>
   SlowStreamBuffer_get_data 1 example_SlowStreamBuffer_clamped = Inl ValueError"
proof -
  have dense: "StreamDataset_init [PyTensor [1, 2], PyTensor [1, 2], PyList [], PyInt 5, PyInt 1,
      PyInt 1, PyBool True] = Inr example_dense_view \<and>
   StreamDataset_len example_dense_view = Inr (- 3) \<and>
   py_len example_dense_view = Inl ValueError"
    by (simp add: example_dense_view_def py_len_def StreamDataset_len_def)
  have st: "example_SlowStreamBuffer_clamped =
     \<lparr>slow_buffer_size = 1, slow_seq_len = 2, slow_pred_len = 3, slow_sample_freq = 1,
      slow_x = Some [1, 2, 3], slow_length = 0, slow_logits = [10, 20]\<rparr>"
    by code_simp
  have get: "SlowStreamBuffer_get_data 1 example_SlowStreamBuffer_clamped = Inl ValueError"
    unfolding st
    by (simp add: SlowStreamBuffer_get_data_def get_loader_def py_len_def StreamDataset_len_def
        py_floordiv_def opt_tensor_def)
  show ?thesis using dense get by (simp add: st)
qed

subsection \<open>The fast stream buffer\<close>

text \<open>
  C5. \<open>FastStreamBuffer.get_data\<close> calls \<open>StreamDataset\<close> with four arguments, and the
  constructor has six parameters without a default: after any \<open>add_data\<close>, for every
  requested size, the call raises \<open>TypeError\<close> and no loader is returned.
\<close>

theorem FastStreamBuffer_get_data_raises:
  "(FastStreamBuffer_get_data sz (FastStreamBuffer_add_data x pred b)
      :: error + ('a, 'l) DataLoader) = Inl TypeError"
  by (simp add: FastStreamBuffer_get_data_def FastStreamBuffer_add_data_def Let_def
      split: option.splits)

lemma FastStreamBuffer_add_data_params:
  "fast_buffer_size (FastStreamBuffer_add_data x pred b) = fast_buffer_size b \<and>
   fast_seq_len (FastStreamBuffer_add_data x pred b) = fast_seq_len b \<and>
   fast_pred_len (FastStreamBuffer_add_data x pred b) = fast_pred_len b"
  by (simp add: FastStreamBuffer_add_data_def Let_def split: option.splits)

lemma FastStreamBuffer_reachable_length:
  assumes "FastStreamBuffer_reachable b"
  shows "case fast_x b of
           None \<Rightarrow> fast_length b = 0
         | Some xs \<Rightarrow> fast_length b = 0 \<or> fast_length b = int (length xs) - fast_seq_len b"
  using assms
proof (induction rule: FastStreamBuffer_reachable.induct)
  case (Fast_reachable_init bsize seq_len pred_len)
  then show ?case by (simp add: FastStreamBuffer_init_def)
next
  case (Fast_reachable_add_data b x pred)
  then show ?case
    by (simp add: FastStreamBuffer_add_data_def Let_def split: option.splits)
next
  case (Fast_reachable_clear b)
  then show ?case by (simp add: FastStreamBuffer_clear_def)
qed

text \<open>
  C4 as stated fails on the first call: \<open>add_data\<close> stores the series in full and sets
  \<open>length\<close> to \<open>0\<close>. With \<open>seq_len = 1\<close> and a first series of three time steps the
  stored length is \<open>0\<close>, and the series length minus \<open>seq_len\<close> is \<open>2\<close>.
\<close>

theorem FastStreamBuffer_first_add_length:
  "fast_x example_FastStreamBuffer = Some [1, 2, 3] \<and>
   fast_seq_len example_FastStreamBuffer = 1 \<and>
   fast_length example_FastStreamBuffer = 0 \<and>
   fast_length example_FastStreamBuffer \<noteq>
     int (length [1, 2, 3 :: int]) - fast_seq_len example_FastStreamBuffer"
  by (simp add: example_FastStreamBuffer_def FastStreamBuffer_add_data_def
      FastStreamBuffer_init_def)

text \<open>
  C4, amended. The first \<open>add_data\<close> (the series is \<open>None\<close>) stores \<open>x\<close> and \<open>pred\<close> in
  full and sets \<open>length\<close> to \<open>0\<close>. Every later \<open>add_data\<close> leaves \<open>length\<close> equal to the
  series length minus \<open>seq_len\<close>. When the stored \<open>length\<close> is at least \<open>buffer_size\<close> at a
  later call, on a non-empty series and with a non-empty \<open>x\<close>, the call drops exactly the
  oldest time step and appends exactly the newest time step of \<open>x\<close>. In a reachable
  state with a positive \<open>buffer_size\<close> and a non-negative \<open>seq_len\<close> the series is then
  non-empty and the call leaves \<open>length\<close> as it was, so every subsequent call does the
  same.
\<close>

theorem FastStreamBuffer_add_data_length:
  "(fast_x b = None \<longrightarrow>
      FastStreamBuffer_add_data x pred b =
        b\<lparr>fast_x := Some x, fast_y := Some pred, fast_length := 0\<rparr>) \<and>
   (fast_x b = Some xs \<longrightarrow>
      (\<exists>xs'. fast_x (FastStreamBuffer_add_data x pred b) = Some xs' \<and>
         fast_length (FastStreamBuffer_add_data x pred b) =
           int (length xs') - fast_seq_len (FastStreamBuffer_add_data x pred b))) \<and>
   (fast_x b = Some xs \<and> fast_buffer_size b \<le> fast_length b \<and> xs \<noteq> [] \<and> x \<noteq> [] \<longrightarrow>
      fast_x (FastStreamBuffer_add_data x pred b) = Some (tl xs @ [last x]) \<and>
      length (tl xs) = length xs - 1) \<and>
   (FastStreamBuffer_reachable b \<and> 0 < fast_buffer_size b \<and> 0 \<le> fast_seq_len b \<and>
    fast_buffer_size b \<le> fast_length b \<and> x \<noteq> [] \<longrightarrow>
      (\<exists>ys. fast_x b = Some ys \<and> ys \<noteq> [] \<and>
         fast_x (FastStreamBuffer_add_data x pred b) = Some (tl ys @ [last x]) \<and>
         fast_length (FastStreamBuffer_add_data x pred b) = fast_length b \<and>
         fast_buffer_size (FastStreamBuffer_add_data x pred b)
           \<le> fast_length (FastStreamBuffer_add_data x pred b)))"
proof (intro conjI impI)
  assume "fast_x b = None"
  then show "FastStreamBuffer_add_data x pred b =
      b\<lparr>fast_x := Some x, fast_y := Some pred, fast_length := 0\<rparr>"
    by (simp add: FastStreamBuffer_add_data_def)
next
  assume "fast_x b = Some xs"
  then show "\<exists>xs'. fast_x (FastStreamBuffer_add_data x pred b) = Some xs' \<and>
         fast_length (FastStreamBuffer_add_data x pred b) =
           int (length xs') - fast_seq_len (FastStreamBuffer_add_data x pred b)"
    by (simp add: FastStreamBuffer_add_data_def Let_def)
next
  assume a: "fast_x b = Some xs \<and> fast_buffer_size b \<le> fast_length b \<and> xs \<noteq> [] \<and> x \<noteq> []"
  then show "fast_x (FastStreamBuffer_add_data x pred b) = Some (tl xs @ [last x])"
    by (simp add: FastStreamBuffer_add_data_def Let_def slice_from_1 slice_from_last)
  show "length (tl xs) = length xs - 1" by simp
next
  assume a: "FastStreamBuffer_reachable b \<and> 0 < fast_buffer_size b \<and> 0 \<le> fast_seq_len b \<and>
    fast_buffer_size b \<le> fast_length b \<and> x \<noteq> []"
  then have pos: "0 < fast_length b" by linarith
  obtain ys where ys: "fast_x b = Some ys" "fast_length b = int (length ys) - fast_seq_len b"
    using FastStreamBuffer_reachable_length[of b] a pos by (cases "fast_x b") auto
  have ne: "ys \<noteq> []" using ys pos a by auto
  have len: "length (tl ys @ [last x]) = length ys" using ne by simp
  have x': "fast_x (FastStreamBuffer_add_data x pred b) = Some (tl ys @ [last x])"
    using ys a by (simp add: FastStreamBuffer_add_data_def Let_def slice_from_1 slice_from_last)
  have l': "fast_length (FastStreamBuffer_add_data x pred b) = fast_length b"
    using ys a len
    by (simp add: FastStreamBuffer_add_data_def Let_def slice_from_1 slice_from_last)
  show "\<exists>ys. fast_x b = Some ys \<and> ys \<noteq> [] \<and>
         fast_x (FastStreamBuffer_add_data x pred b) = Some (tl ys @ [last x]) \<and>
         fast_length (FastStreamBuffer_add_data x pred b) = fast_length b \<and>
         fast_buffer_size (FastStreamBuffer_add_data x pred b)
           \<le> fast_length (FastStreamBuffer_add_data x pred b)"
    using ys ne x' l' a by (simp add: FastStreamBuffer_add_data_params)
qed

theorem FastStreamBuffer_add_data_length_witness:
  "fast_x (FastStreamBuffer_init 2 1 1 :: int FastStreamBuffer) = None \<and>
   FastStreamBuffer_add_data [1, 2, 3] [4] (FastStreamBuffer_init 2 1 1) =
     (FastStreamBuffer_init 2 1 1)
       \<lparr>fast_x := Some [1, 2, 3 :: int], fast_y := Some [4], fast_length := 0\<rparr> \<and>
   FastStreamBuffer_reachable example_FastStreamBuffer2 \<and>
   fast_x example_FastStreamBuffer2 = Some [1, 2, 3, 6] \<and>
   0 < fast_buffer_size example_FastStreamBuffer2 \<and>
   0 \<le> fast_seq_len example_FastStreamBuffer2 \<and>
   fast_buffer_size example_FastStreamBuffer2 \<le> fast_length example_FastStreamBuffer2 \<and>
   fast_x (FastStreamBuffer_add_data [7] [9] example_FastStreamBuffer2) = Some [2, 3, 6, 7] \<and>
   fast_length (FastStreamBuffer_add_data [7] [9] example_FastStreamBuffer2) = 3"
proof -
  have r: "FastStreamBuffer_reachable example_FastStreamBuffer2"
    unfolding example_FastStreamBuffer2_def example_FastStreamBuffer_def
    by (intro Fast_reachable_add_data Fast_reachable_init)
  have none: "fast_x (FastStreamBuffer_init 2 1 1 :: int FastStreamBuffer) = None"
    by (simp add: FastStreamBuffer_init_def)
  have st: "fast_x example_FastStreamBuffer2 = Some [1, 2, 3, 6]"
    "fast_buffer_size example_FastStreamBuffer2 = 2"
    "fast_seq_len example_FastStreamBuffer2 = 1"
    "fast_length example_FastStreamBuffer2 = 3"
    by (simp_all add: example_FastStreamBuffer2_def example_FastStreamBuffer_def
        FastStreamBuffer_add_data_def FastStreamBuffer_init_def slice_from_def)
  show ?thesis
    using r none st
      FastStreamBuffer_add_data_length[of "FastStreamBuffer_init 2 1 1" "[1, 2, 3 :: int]" "[4]" "[]"]
      FastStreamBuffer_add_data_length[of example_FastStreamBuffer2 "[7]" "[9]" "[1, 2, 3, 6]"]
    by simp
qed

subsection \<open>The reservoir policy\<close>

text \<open>
  C2. For a positive \<open>buffer_size\<close>: while \<open>num_seen_examples < buffer_size\<close> the policy
  returns \<open>num_seen_examples\<close>; otherwise its equally likely results are the images of
  the integers of the inclusive range \<open>[0, num_seen_examples]\<close>, the draw itself when it
  is below \<open>buffer_size\<close> and the reject value \<open>-1\<close> when it is not. For a count that is
  not negative the call returns, and every result other than \<open>-1\<close> is a slot in
  \<open>[0, buffer_size)\<close>.
\<close>

theorem reservoir_policy:
  assumes "0 < bsize"
  shows "(n < bsize \<longrightarrow> reservoir n bsize = Inr [n]) \<and>
         (bsize \<le> n \<longrightarrow>
            reservoir n bsize = Inr (map (\<lambda>rand. if rand < bsize then rand else - 1) [0..n])) \<and>
         (0 \<le> n \<longrightarrow>
            (\<exists>slots. reservoir n bsize = Inr slots \<and> slots \<noteq> [] \<and>
               (\<forall>slot \<in> set slots. slot = - 1 \<or> (0 \<le> slot \<and> slot < bsize))))"
proof (intro conjI impI)
  assume "n < bsize"
  then show "reservoir n bsize = Inr [n]" by (simp add: reservoir_def)
next
  assume "bsize \<le> n"
  then show "reservoir n bsize = Inr (map (\<lambda>rand. if rand < bsize then rand else - 1) [0..n])"
    using assms by (simp add: reservoir_def randint_def)
next
  assume n: "0 \<le> n"
  show "\<exists>slots. reservoir n bsize = Inr slots \<and> slots \<noteq> [] \<and>
               (\<forall>slot \<in> set slots. slot = - 1 \<or> (0 \<le> slot \<and> slot < bsize))"
  proof (cases "n < bsize")
    case True
    then show ?thesis using n by (simp add: reservoir_def)
  next
    case False
    have "[0..n] \<noteq> []" using n by (simp add: upto.simps)
    then show ?thesis using False n by (auto simp: reservoir_def randint_def)
  qed
qed

theorem reservoir_policy_witness:
  "(0::int) < 3 \<and> reservoir 2 3 = Inr [2] \<and> reservoir 5 3 = Inr [0, 1, 2, - 1, - 1, - 1]"
proof -
  have u: "[0..5::int] = [0, 1, 2, 3, 4, 5]" by code_simp
  show ?thesis
    using reservoir_policy[of 3 2] reservoir_policy[of 3 5] by (simp add: u)
qed

subsection \<open>\<open>BufferFIFO.add_data\<close>\<close>

lemma BufferFIFO_add_data_allocated:
  assumes "tensors b ''losses'' = Some t"
  shows "BufferFIFO_add_data v lab lg tk b =
     (case tensor_set t (num_seen_examples b) v of
        Inl e \<Rightarrow> (b, Some e)
      | Inr t' \<Rightarrow>
          (b\<lparr>tensors := (tensors b)(''losses'' \<mapsto> t'),
             num_seen_examples := num_seen_examples b + 1\<rparr>, None))"
  using assms by (simp add: BufferFIFO_add_data_def)

lemma BufferFIFO_add_data_unallocated:
  assumes "tensors b ''losses'' = None" and "attributes b = [''losses'']" and "0 \<le> buffer_size b"
  shows "BufferFIFO_add_data v lab lg tk b =
     (case tensor_set (replicate (nat (buffer_size b)) 0) (num_seen_examples b) v of
        Inl e \<Rightarrow> (b\<lparr>tensors := (tensors b)(''losses'' \<mapsto> replicate (nat (buffer_size b)) 0)\<rparr>, Some e)
      | Inr t' \<Rightarrow>
          (b\<lparr>tensors := (tensors b)(''losses'' \<mapsto> t'),
             num_seen_examples := num_seen_examples b + 1\<rparr>, None))"
  using assms
  by (simp add: BufferFIFO_add_data_def init_tensors_def torch_zeros_def split: sum.splits)

lemma tensor_set_in_range:
  "0 \<le> i \<Longrightarrow> i < int (length t) \<Longrightarrow> tensor_set t i v = Inr (t[nat i := v])"
  by (simp add: tensor_set_def norm_index_def)

lemma tensor_set_out_of_range:
  "int (length t) \<le> i \<Longrightarrow> tensor_set t i v = Inl IndexError"
  by (simp add: tensor_set_def norm_index_def)

text \<open>
  C8. In every reachable state of a \<open>BufferFIFO\<close>, \<open>add_data\<close> writes the value at the slot
  \<open>num_seen_examples\<close> itself, with no wraparound, and then adds one to the counter; this
  succeeds while the counter is below \<open>buffer_size\<close>. Once the counter has reached
  \<open>buffer_size\<close> the call raises \<open>IndexError\<close>; it leaves the stored values and the counter
  as they were, so the next call raises as well.
\<close>

theorem BufferFIFO_add_data_no_wraparound:
  assumes "BufferFIFO_reachable b"
  shows "(num_seen_examples b < buffer_size b \<longrightarrow>
            BufferFIFO_add_data v lab lg tk b =
              (b\<lparr>tensors := (tensors b)(''losses'' \<mapsto>
                     (case tensors b ''losses'' of
                        None \<Rightarrow> replicate (nat (buffer_size b)) 0
                      | Some t \<Rightarrow> t)[nat (num_seen_examples b) := v]),
                  num_seen_examples := num_seen_examples b + 1\<rparr>, None)) \<and>
         (0 \<le> buffer_size b \<and> buffer_size b \<le> num_seen_examples b \<longrightarrow>
            snd (BufferFIFO_add_data v lab lg tk b) = Some IndexError \<and>
            tensors (fst (BufferFIFO_add_data v lab lg tk b)) ''losses'' =
              Some (case tensors b ''losses'' of
                      None \<Rightarrow> replicate (nat (buffer_size b)) 0
                    | Some t \<Rightarrow> t) \<and>
            num_seen_examples (fst (BufferFIFO_add_data v lab lg tk b)) = num_seen_examples b \<and>
            buffer_size (fst (BufferFIFO_add_data v lab lg tk b)) = buffer_size b)"
proof -
  have inv: "wf_buffer b" "attributes b = [''losses'']"
    using BufferFIFO_reachable_inv[OF assms] by simp_all
  have seen: "0 \<le> num_seen_examples b" using inv by (simp add: wf_buffer_def)
  show ?thesis
  proof (cases "tensors b ''losses''")
    case None
    show ?thesis
    proof (intro conjI impI)
      assume lt: "num_seen_examples b < buffer_size b"
      then show "BufferFIFO_add_data v lab lg tk b =
              (b\<lparr>tensors := (tensors b)(''losses'' \<mapsto>
                     (case tensors b ''losses'' of
                        None \<Rightarrow> replicate (nat (buffer_size b)) 0
                      | Some t \<Rightarrow> t)[nat (num_seen_examples b) := v]),
                  num_seen_examples := num_seen_examples b + 1\<rparr>, None)"
        using None inv seen
        by (simp add: BufferFIFO_add_data_unallocated tensor_set_in_range)
    next
      assume ge: "0 \<le> buffer_size b \<and> buffer_size b \<le> num_seen_examples b"
      then have r: "BufferFIFO_add_data v lab lg tk b =
          (b\<lparr>tensors := (tensors b)(''losses'' \<mapsto> replicate (nat (buffer_size b)) 0)\<rparr>,
           Some IndexError)"
        using None inv by (simp add: BufferFIFO_add_data_unallocated tensor_set_out_of_range)
      show "snd (BufferFIFO_add_data v lab lg tk b) = Some IndexError" by (simp add: r)
      show "tensors (fst (BufferFIFO_add_data v lab lg tk b)) ''losses'' =
              Some (case tensors b ''losses'' of
                      None \<Rightarrow> replicate (nat (buffer_size b)) 0
                    | Some t \<Rightarrow> t)"
        by (simp add: r None)
      show "num_seen_examples (fst (BufferFIFO_add_data v lab lg tk b)) = num_seen_examples b"
        by (simp add: r)
      show "buffer_size (fst (BufferFIFO_add_data v lab lg tk b)) = buffer_size b"
        by (simp add: r)
    qed
  next
    case (Some t)
    then have len: "0 \<le> buffer_size b" "length t = nat (buffer_size b)"
      using inv by (auto simp: wf_buffer_def)
    show ?thesis
    proof (intro conjI impI)
      assume lt: "num_seen_examples b < buffer_size b"
      then show "BufferFIFO_add_data v lab lg tk b =
              (b\<lparr>tensors := (tensors b)(''losses'' \<mapsto>
                     (case tensors b ''losses'' of
                        None \<Rightarrow> replicate (nat (buffer_size b)) 0
                      | Some t \<Rightarrow> t)[nat (num_seen_examples b) := v]),
                  num_seen_examples := num_seen_examples b + 1\<rparr>, None)"
        using Some len seen
        by (simp add: BufferFIFO_add_data_allocated tensor_set_in_range)
    next
      assume ge: "0 \<le> buffer_size b \<and> buffer_size b \<le> num_seen_examples b"
      then have r: "BufferFIFO_add_data v lab lg tk b = (b, Some IndexError)"
        using Some len by (simp add: BufferFIFO_add_data_allocated tensor_set_out_of_range)
      show "snd (BufferFIFO_add_data v lab lg tk b) = Some IndexError" by (simp add: r)
      show "tensors (fst (BufferFIFO_add_data v lab lg tk b)) ''losses'' =
              Some (case tensors b ''losses'' of
                      None \<Rightarrow> replicate (nat (buffer_size b)) 0
                    | Some t \<Rightarrow> t)"
        by (simp add: r Some)
      show "num_seen_examples (fst (BufferFIFO_add_data v lab lg tk b)) = num_seen_examples b"
        by (simp add: r)
      show "buffer_size (fst (BufferFIFO_add_data v lab lg tk b)) = buffer_size b"
        by (simp add: r)
    qed
  qed
qed

lemma example_BufferFIFO_full_reachable: "BufferFIFO_reachable example_BufferFIFO_full"
  unfolding example_BufferFIFO_full_def
  by (rule for_each_preserves[where P = BufferFIFO_reachable])
     (simp_all add: BufferFIFO_reachable_add_data BufferFIFO_reachable_init[OF example_BufferFIFO_init])

lemma example_BufferFIFO_full_state:
  "tensors example_BufferFIFO_full ''losses'' = Some [5, 6, 7]"
  "num_seen_examples example_BufferFIFO_full = 3"
  "buffer_size example_BufferFIFO_full = 3"
  by code_simp+

theorem BufferFIFO_add_data_no_wraparound_witness:
  "BufferFIFO_reachable example_BufferFIFO \<and>
   num_seen_examples example_BufferFIFO < buffer_size example_BufferFIFO \<and>
   BufferFIFO_add_data 5 None None None example_BufferFIFO =
     (example_BufferFIFO\<lparr>tensors := [''losses'' \<mapsto> [5, 0, 0]], num_seen_examples := 1\<rparr>, None) \<and>
   BufferFIFO_reachable example_BufferFIFO_full \<and>
   0 \<le> buffer_size example_BufferFIFO_full \<and>
   buffer_size example_BufferFIFO_full \<le> num_seen_examples example_BufferFIFO_full \<and>
   snd (BufferFIFO_add_data 8 None None None example_BufferFIFO_full) = Some IndexError \<and>
   tensors (fst (BufferFIFO_add_data 8 None None None example_BufferFIFO_full)) ''losses'' =
     Some [5, 6, 7] \<and>
   num_seen_examples (fst (BufferFIFO_add_data 8 None None None example_BufferFIFO_full)) = 3"
proof -
  have fresh: "BufferFIFO_reachable example_BufferFIFO"
    by (rule BufferFIFO_reachable_init[OF example_BufferFIFO_init])
  have st: "tensors example_BufferFIFO = Map.empty" "num_seen_examples example_BufferFIFO = 0"
    "buffer_size example_BufferFIFO = 3"
    by (simp_all add: example_BufferFIFO_def)
  have z: "replicate 3 (0::int) = [0, 0, 0]" by code_simp
  show ?thesis
    using fresh st example_BufferFIFO_full_reachable example_BufferFIFO_full_state
      BufferFIFO_add_data_no_wraparound[OF fresh, of 5 None None None]
      BufferFIFO_add_data_no_wraparound[OF example_BufferFIFO_full_reachable, of 8 None None None]
    by (simp add: z)
qed

subsection \<open>\<open>Buffer.add_data\<close>\<close>

lemma and_then_snd_None:
  "snd (and_then r f) = None \<longleftrightarrow> snd r = None \<and> snd (f (fst r)) = None"
  by (cases r) (auto simp: and_then_def split: option.splits)

lemma for_each_counts:
  assumes "\<And>i s. snd (body i s) = None \<Longrightarrow> count (fst (body i s)) = count s + 1"
    and "snd (for_each body is s) = None"
  shows "count (fst (for_each body is s)) = count s + int (length is)"
  using assms(2)
proof (induction "is" arbitrary: s)
  case Nil
  then show ?case by simp
next
  case (Cons i "is")
  from Cons.prems have ok: "snd (body i s) = None" "snd (for_each body is (fst (body i s))) = None"
    by (simp_all add: and_then_snd_None)
  have "for_each body (i # is) s = for_each body is (fst (body i s))"
    using ok(1) by (cases "body i s") simp
  then show ?case using Cons.IH[OF ok(2)] assms(1)[OF ok(1)] by simp
qed

lemma Buffer_add_item_counter:
  "num_seen_examples (fst (Buffer_add_item exs lab lg tk i b)) =
     (if buffer_size b = 0 then num_seen_examples b else num_seen_examples b + 1)"
proof (cases "buffer_size b = 0")
  case True
  then show ?thesis by (simp add: Buffer_add_item_def fifo_def py_mod_def)
next
  case False
  let ?Q = "\<lambda>s::'a Buffer. num_seen_examples s = num_seen_examples b + 1"
  let ?index = "num_seen_examples b mod buffer_size b"
  have "?Q (fst (and_then (and_then (and_then
               (store_item ''examples'' ?index exs i (b\<lparr>num_seen_examples := num_seen_examples b + 1\<rparr>))
               (store_opt ''labels'' ?index lab i))
               (store_opt ''logits'' ?index lg i))
               (store_opt ''task_labels'' ?index tk i)))"
    by (intro and_then_preserves[where P = ?Q]) (simp_all add: store_item_fields store_opt_fields)
  then show ?thesis using False by (simp add: Buffer_add_item_def fifo_def py_mod_def Let_def)
qed

lemma Buffer_add_item_raises_no_slot:
  "buffer_size b = 0 \<Longrightarrow> snd (Buffer_add_item exs lab lg tk i b) = Some ZeroDivisionError"
  by (simp add: Buffer_add_item_def fifo_def py_mod_def)

lemma Buffer_add_data_counter:
  assumes "snd (Buffer_add_data exs lab lg tk b) = None"
  shows "num_seen_examples (fst (Buffer_add_data exs lab lg tk b)) =
           num_seen_examples b + int (length exs)"
proof -
  let ?init = "if tensors b ''examples'' = None
      then init_tensors [''examples'' \<mapsto> Some exs, ''labels'' \<mapsto> lab, ''logits'' \<mapsto> lg, ''task_labels'' \<mapsto> tk] b
      else (b, None)"
  have ok: "snd ?init = None"
    "snd (for_each (Buffer_add_item exs lab lg tk) [0..<length exs] (fst ?init)) = None"
    using assms unfolding Buffer_add_data_def and_then_snd_None by simp_all
  have eq: "Buffer_add_data exs lab lg tk b =
      for_each (Buffer_add_item exs lab lg tk) [0..<length exs] (fst ?init)"
    unfolding Buffer_add_data_def using ok(1) by (cases ?init) simp
  have n0: "num_seen_examples (fst ?init) = num_seen_examples b"
    by (simp add: init_tensors_def init_tensors_loop_fields)
  have step: "\<And>i s. snd (Buffer_add_item exs lab lg tk i s) = None \<Longrightarrow>
      num_seen_examples (fst (Buffer_add_item exs lab lg tk i s)) = num_seen_examples s + 1"
    using Buffer_add_item_raises_no_slot by (fastforce simp: Buffer_add_item_counter)
  show ?thesis
    unfolding eq using for_each_counts[where count = num_seen_examples, OF step ok(2)] n0
    by simp
qed

lemma store_item_writes:
  assumes "i < length src" and "tensors b name = Some t" and "0 \<le> index" and "index < int (length t)"
  shows "store_item name index src i b =
           (b\<lparr>tensors := (tensors b)(name \<mapsto> t[nat index := src ! i])\<rparr>, None)"
  using assms by (simp add: store_item_def tensor_get_def tensor_set_def norm_index_def)

lemma Buffer_add_item_examples:
  assumes "wf_buffer b" and "0 < buffer_size b" and "tensors b ''examples'' = Some t"
    and "i < length exs"
  shows "tensors (fst (Buffer_add_item exs lab lg tk i b)) ''examples'' =
           Some (t[nat (num_seen_examples b mod buffer_size b) := exs ! i])"
proof -
  let ?index = "num_seen_examples b mod buffer_size b"
  let ?b1 = "b\<lparr>num_seen_examples := num_seen_examples b + 1\<rparr>"
  let ?Q = "\<lambda>s::'a Buffer. tensors s ''examples'' = Some (t[nat ?index := exs ! i])"
  have len: "length t = nat (buffer_size b)" using assms by (auto simp: wf_buffer_def)
  have idx: "0 \<le> ?index" "?index < int (length t)" using assms(2) len by simp_all
  have first: "store_item ''examples'' ?index exs i ?b1 =
      (?b1\<lparr>tensors := (tensors ?b1)(''examples'' \<mapsto> t[nat ?index := exs ! i])\<rparr>, None)"
    by (rule store_item_writes) (use assms idx in simp_all)
  have "?Q (fst (and_then (and_then (and_then
               (store_item ''examples'' ?index exs i ?b1)
               (store_opt ''labels'' ?index lab i))
               (store_opt ''logits'' ?index lg i))
               (store_opt ''task_labels'' ?index tk i)))"
    by (intro and_then_preserves[where P = ?Q]) (simp_all add: first store_opt_other)
  then show ?thesis using assms(2) by (simp add: Buffer_add_item_def fifo_def py_mod_def Let_def)
qed

lemma Buffer_add_item_labels:
  assumes "wf_buffer b" and "0 < buffer_size b" and "tensors b ''examples'' = Some t"
    and "i < length exs" and "tensors b ''labels'' = Some tl'" and "i < length ls"
  shows "tensors (fst (Buffer_add_item exs (Some ls) lg tk i b)) ''labels'' =
           Some (tl'[nat (num_seen_examples b mod buffer_size b) := ls ! i])"
proof -
  let ?index = "num_seen_examples b mod buffer_size b"
  let ?b1 = "b\<lparr>num_seen_examples := num_seen_examples b + 1\<rparr>"
  let ?b2 = "?b1\<lparr>tensors := (tensors ?b1)(''examples'' \<mapsto> t[nat ?index := exs ! i])\<rparr>"
  let ?Q = "\<lambda>s::'a Buffer. tensors s ''labels'' = Some (tl'[nat ?index := ls ! i])"
  have len: "length t = nat (buffer_size b)" "length tl' = nat (buffer_size b)"
    using assms by (auto simp: wf_buffer_def)
  have idx: "0 \<le> ?index" "?index < int (length t)" "?index < int (length tl')"
    using assms(2) len by simp_all
  have first: "store_item ''examples'' ?index exs i ?b1 = (?b2, None)"
    by (rule store_item_writes) (use assms idx in simp_all)
  have second: "store_item ''labels'' ?index ls i ?b2 =
      (?b2\<lparr>tensors := (tensors ?b2)(''labels'' \<mapsto> tl'[nat ?index := ls ! i])\<rparr>, None)"
    by (rule store_item_writes) (use assms idx in simp_all)
  have lab: "?Q (fst (store_opt ''labels'' ?index (Some ls) i ?b2))"
    using second by (simp add: store_opt_def)
  have "?Q (fst (and_then (and_then
               (store_opt ''labels'' ?index (Some ls) i ?b2)
               (store_opt ''logits'' ?index lg i))
               (store_opt ''task_labels'' ?index tk i)))"
    by (intro and_then_preserves[where P = ?Q]) (use lab in \<open>simp_all add: store_opt_other\<close>)
  then show ?thesis using assms(2) by (simp add: Buffer_add_item_def fifo_def py_mod_def Let_def first)
qed

lemma Buffer_add_data_single:
  assumes "wf_buffer b" and "0 < buffer_size b" and "tensors b ''examples'' = Some t"
  shows "Buffer_add_data [e] None None None b =
           (b\<lparr>num_seen_examples := num_seen_examples b + 1,
              tensors := (tensors b)(''examples'' \<mapsto>
                 t[nat (num_seen_examples b mod buffer_size b) := e])\<rparr>, None)"
proof -
  let ?index = "num_seen_examples b mod buffer_size b"
  let ?b1 = "b\<lparr>num_seen_examples := num_seen_examples b + 1\<rparr>"
  have len: "length t = nat (buffer_size b)" using assms by (auto simp: wf_buffer_def)
  have idx: "0 \<le> ?index" "?index < int (length t)" using assms(2) len by simp_all
  have first: "store_item ''examples'' ?index [e] 0 ?b1 =
      (?b1\<lparr>tensors := (tensors ?b1)(''examples'' \<mapsto> t[nat ?index := [e] ! 0])\<rparr>, None)"
    by (rule store_item_writes) (use assms idx in simp_all)
  have item: "Buffer_add_item [e] None None None 0 b =
      (b\<lparr>num_seen_examples := num_seen_examples b + 1,
         tensors := (tensors b)(''examples'' \<mapsto> t[nat ?index := e])\<rparr>, None)"
    using assms(2) first
    by (simp add: Buffer_add_item_def fifo_def py_mod_def Let_def store_opt_def)
  show ?thesis
    using assms(3) item by (simp add: Buffer_add_data_def)
qed

lemma Buffer_add_item_plain:
  assumes "0 < buffer_size s" and "tensors s ''examples'' = Some t"
    and "length t = nat (buffer_size s)" and "i < length exs"
  shows "Buffer_add_item exs None None None i s =
           (s\<lparr>num_seen_examples := num_seen_examples s + 1,
              tensors := (tensors s)(''examples'' \<mapsto>
                 t[nat (num_seen_examples s mod buffer_size s) := exs ! i])\<rparr>, None)"
proof -
  let ?index = "num_seen_examples s mod buffer_size s"
  let ?s1 = "s\<lparr>num_seen_examples := num_seen_examples s + 1\<rparr>"
  have idx: "0 \<le> ?index" "?index < int (length t)" using assms(1,3) by simp_all
  have first: "store_item ''examples'' ?index exs i ?s1 =
      (?s1\<lparr>tensors := (tensors ?s1)(''examples'' \<mapsto> t[nat ?index := exs ! i])\<rparr>, None)"
    by (rule store_item_writes) (use assms idx in simp_all)
  show ?thesis
    using assms(1) first
    by (simp add: Buffer_add_item_def fifo_def py_mod_def Let_def store_opt_def)
qed

lemma Buffer_add_item_labelled:
  assumes "0 < buffer_size s" and "tensors s ''examples'' = Some t"
    and "length t = nat (buffer_size s)" and "i < length exs"
    and "tensors s ''labels'' = Some u" and "length u = nat (buffer_size s)" and "i < length ls"
  shows "Buffer_add_item exs (Some ls) None None i s =
           (s\<lparr>num_seen_examples := num_seen_examples s + 1,
              tensors := (tensors s)
                (''examples'' \<mapsto> t[nat (num_seen_examples s mod buffer_size s) := exs ! i],
                 ''labels'' \<mapsto> u[nat (num_seen_examples s mod buffer_size s) := ls ! i])\<rparr>, None)"
proof -
  let ?index = "num_seen_examples s mod buffer_size s"
  let ?s1 = "s\<lparr>num_seen_examples := num_seen_examples s + 1\<rparr>"
  let ?s2 = "?s1\<lparr>tensors := (tensors ?s1)(''examples'' \<mapsto> t[nat ?index := exs ! i])\<rparr>"
  have idx: "0 \<le> ?index" "?index < int (length t)" "?index < int (length u)"
    using assms(1,3,6) by simp_all
  have first: "store_item ''examples'' ?index exs i ?s1 = (?s2, None)"
    by (rule store_item_writes) (use assms idx in simp_all)
  have second: "store_item ''labels'' ?index ls i ?s2 =
      (?s2\<lparr>tensors := (tensors ?s2)(''labels'' \<mapsto> u[nat ?index := ls ! i])\<rparr>, None)"
    by (rule store_item_writes) (use assms idx in simp_all)
  have "Buffer_add_item exs (Some ls) None None i s =
      (?s2\<lparr>tensors := (tensors ?s2)(''labels'' \<mapsto> u[nat ?index := ls ! i])\<rparr>, None)"
    using assms(1) first second
    by (simp add: Buffer_add_item_def fifo_def py_mod_def Let_def store_opt_def)
  then show ?thesis by simp
qed

lemma Buffer_add_loop_plain:
  assumes "0 < buffer_size s" and "tensors s ''examples'' = Some t"
    and "length t = nat (buffer_size s)" and "k \<le> length exs"
  shows "for_each (Buffer_add_item exs None None None) [k..<length exs] s =
           (s\<lparr>num_seen_examples := num_seen_examples s + int (length exs - k),
              tensors := (tensors s)(''examples'' \<mapsto>
                 spec_fifo_writes (num_seen_examples s) (buffer_size s) (drop k exs) t)\<rparr>, None)"
  using assms
proof (induction "length exs - k" arbitrary: k s t)
  case 0
  then have "(tensors s)(''examples'' \<mapsto> t) = tensors s" by (simp add: fun_upd_idem)
  then show ?case using 0 by simp
next
  case (Suc m)
  then have k: "k < length exs" by simp
  let ?index = "num_seen_examples s mod buffer_size s"
  let ?t' = "t[nat ?index := exs ! k]"
  let ?s' = "s\<lparr>num_seen_examples := num_seen_examples s + 1,
              tensors := (tensors s)(''examples'' \<mapsto> ?t')\<rparr>"
  have item: "Buffer_add_item exs None None None k s = (?s', None)"
    by (rule Buffer_add_item_plain) (use Suc.prems k in simp_all)
  have rest: "for_each (Buffer_add_item exs None None None) [Suc k..<length exs] ?s' =
      (?s'\<lparr>num_seen_examples := num_seen_examples ?s' + int (length exs - Suc k),
           tensors := (tensors ?s')(''examples'' \<mapsto>
              spec_fifo_writes (num_seen_examples ?s') (buffer_size ?s') (drop (Suc k) exs) ?t')\<rparr>,
       None)"
    by (rule Suc.hyps(1)) (use Suc.hyps(2) Suc.prems k in simp_all)
  have d: "drop k exs = exs ! k # drop (Suc k) exs" using k by (simp add: Cons_nth_drop_Suc)
  have u: "[k..<length exs] = k # [Suc k..<length exs]" using k by (simp add: upt_conv_Cons)
  have n: "int (length exs - k) = 1 + int (length exs - Suc k)" using k by simp
  show ?case
    unfolding u for_each.simps item and_then_None rest d n by simp
qed

lemma Buffer_add_loop_labelled:
  assumes "0 < buffer_size s" and "tensors s ''examples'' = Some t"
    and "length t = nat (buffer_size s)" and "k \<le> length exs"
    and "tensors s ''labels'' = Some u" and "length u = nat (buffer_size s)"
    and "length ls = length exs"
  shows "for_each (Buffer_add_item exs (Some ls) None None) [k..<length exs] s =
           (s\<lparr>num_seen_examples := num_seen_examples s + int (length exs - k),
              tensors := (tensors s)
                (''examples'' \<mapsto>
                   spec_fifo_writes (num_seen_examples s) (buffer_size s) (drop k exs) t,
                 ''labels'' \<mapsto>
                   spec_fifo_writes (num_seen_examples s) (buffer_size s) (drop k ls) u)\<rparr>, None)"
  using assms
proof (induction "length exs - k" arbitrary: k s t u)
  case 0
  then have e: "(tensors s)(''examples'' \<mapsto> t, ''labels'' \<mapsto> u) = tensors s"
    by (simp add: fun_upd_idem)
  have k: "length exs - k = 0" "[k..<length exs] = []" "drop k exs = []" "drop k ls = []"
    using 0 by simp_all
  show ?case unfolding k for_each.simps spec_fifo_writes.simps e by simp
next
  case (Suc m)
  then have k: "k < length exs" "k < length ls" by simp_all
  let ?index = "num_seen_examples s mod buffer_size s"
  let ?t' = "t[nat ?index := exs ! k]"
  let ?u' = "u[nat ?index := ls ! k]"
  let ?s' = "s\<lparr>num_seen_examples := num_seen_examples s + 1,
              tensors := (tensors s)(''examples'' \<mapsto> ?t', ''labels'' \<mapsto> ?u')\<rparr>"
  have item: "Buffer_add_item exs (Some ls) None None k s = (?s', None)"
    by (rule Buffer_add_item_labelled) (use Suc.prems k in simp_all)
  have rest: "for_each (Buffer_add_item exs (Some ls) None None) [Suc k..<length exs] ?s' =
      (?s'\<lparr>num_seen_examples := num_seen_examples ?s' + int (length exs - Suc k),
           tensors := (tensors ?s')
             (''examples'' \<mapsto>
                spec_fifo_writes (num_seen_examples ?s') (buffer_size ?s') (drop (Suc k) exs) ?t',
              ''labels'' \<mapsto>
                spec_fifo_writes (num_seen_examples ?s') (buffer_size ?s') (drop (Suc k) ls) ?u')\<rparr>,
       None)"
    by (rule Suc.hyps(1)) (use Suc.hyps(2) Suc.prems k in simp_all)
  have d: "drop k exs = exs ! k # drop (Suc k) exs" "drop k ls = ls ! k # drop (Suc k) ls"
    using k by (simp_all add: Cons_nth_drop_Suc)
  have r: "[k..<length exs] = k # [Suc k..<length exs]" using k by (simp add: upt_conv_Cons)
  have n: "int (length exs - k) = 1 + int (length exs - Suc k)" using k by simp
  show ?case
    unfolding r for_each.simps item and_then_None rest d n by simp
qed

lemma Buffer_add_loop_examples:
  assumes "wf_buffer s" and "0 < buffer_size s" and "tensors s ''examples'' = Some t"
    and "k \<le> length exs"
    and "snd (for_each (Buffer_add_item exs lab lg tk) [k..<length exs] s) = None"
  shows "tensors (fst (for_each (Buffer_add_item exs lab lg tk) [k..<length exs] s)) ''examples'' =
           Some (spec_fifo_writes (num_seen_examples s) (buffer_size s) (drop k exs) t)"
  using assms
proof (induction "length exs - k" arbitrary: k s t)
  case 0
  then show ?case by simp
next
  case (Suc m)
  then have k: "k < length exs" by simp
  let ?s' = "fst (Buffer_add_item exs lab lg tk k s)"
  let ?t' = "t[nat (num_seen_examples s mod buffer_size s) := exs ! k]"
  have r: "[k..<length exs] = k # [Suc k..<length exs]" using k by (simp add: upt_conv_Cons)
  have ok: "snd (Buffer_add_item exs lab lg tk k s) = None"
    "snd (for_each (Buffer_add_item exs lab lg tk) [Suc k..<length exs] ?s') = None"
    using Suc.prems(5) unfolding r for_each.simps and_then_snd_None by simp_all
  have step: "for_each (Buffer_add_item exs lab lg tk) [k..<length exs] s =
      for_each (Buffer_add_item exs lab lg tk) [Suc k..<length exs] ?s'"
    unfolding r for_each.simps using ok(1) by (cases "Buffer_add_item exs lab lg tk k s") simp
  have s': "wf_buffer ?s'" "buffer_size ?s' = buffer_size s"
    "num_seen_examples ?s' = num_seen_examples s + 1" "tensors ?s' ''examples'' = Some ?t'"
    using Suc.prems k
    by (simp_all add: Buffer_add_item_wf Buffer_add_item_fields Buffer_add_item_counter
        Buffer_add_item_examples)
  have d: "drop k exs = exs ! k # drop (Suc k) exs" using k by (simp add: Cons_nth_drop_Suc)
  have "tensors (fst (for_each (Buffer_add_item exs lab lg tk) [Suc k..<length exs] ?s'))
          ''examples'' =
        Some (spec_fifo_writes (num_seen_examples ?s') (buffer_size ?s') (drop (Suc k) exs) ?t')"
    by (rule Suc.hyps(1)) (use Suc.hyps(2) Suc.prems k s' ok(2) in simp_all)
  then show ?case unfolding step d by (simp add: s')
qed

lemma init_tensors_Buffer:
  assumes "attributes b = [''examples'', ''labels'', ''logits'', ''task_labels'']"
    and "tensors b ''examples'' = None" and "0 \<le> buffer_size b"
  shows "snd (init_tensors [''examples'' \<mapsto> Some exs, ''labels'' \<mapsto> lab,
                 ''logits'' \<mapsto> lg, ''task_labels'' \<mapsto> tk] b) = None \<and>
         tensors (fst (init_tensors [''examples'' \<mapsto> Some exs, ''labels'' \<mapsto> lab,
                 ''logits'' \<mapsto> lg, ''task_labels'' \<mapsto> tk] b)) ''examples'' =
           Some (replicate (nat (buffer_size b)) 0)"
  using assms by (simp add: init_tensors_def torch_zeros_def)

lemma init_tensors_Buffer_plain:
  assumes "attributes b = [''examples'', ''labels'', ''logits'', ''task_labels'']"
    and "tensors b ''examples'' = None" and "0 \<le> buffer_size b"
  shows "init_tensors [''examples'' \<mapsto> Some exs, ''labels'' \<mapsto> None,
                 ''logits'' \<mapsto> None, ''task_labels'' \<mapsto> None] b =
           (b\<lparr>tensors := (tensors b)(''examples'' \<mapsto> replicate (nat (buffer_size b)) 0)\<rparr>, None)"
  using assms by (simp add: init_tensors_def torch_zeros_def)

lemma init_tensors_Buffer_labelled:
  assumes "attributes b = [''examples'', ''labels'', ''logits'', ''task_labels'']"
    and "tensors b ''examples'' = None" and "0 \<le> buffer_size b"
  shows "init_tensors [''examples'' \<mapsto> Some exs, ''labels'' \<mapsto> Some ls,
                 ''logits'' \<mapsto> None, ''task_labels'' \<mapsto> None] b =
           (b\<lparr>tensors := (tensors b)
                (''examples'' \<mapsto> replicate (nat (buffer_size b)) 0,
                 ''labels'' \<mapsto> (case tensors b ''labels'' of
                                  None \<Rightarrow> replicate (nat (buffer_size b)) 0
                                | Some u \<Rightarrow> u))\<rparr>, None)"
proof (cases "tensors b ''labels''")
  case None
  then show ?thesis using assms by (simp add: init_tensors_def torch_zeros_def)
next
  case (Some u)
  then have "(tensors b)(''examples'' \<mapsto> replicate (nat (buffer_size b)) 0, ''labels'' \<mapsto> u) =
      (tensors b)(''examples'' \<mapsto> replicate (nat (buffer_size b)) 0)"
    by (auto simp: fun_eq_iff)
  then show ?thesis using assms Some by (simp add: init_tensors_def torch_zeros_def)
qed

lemma Buffer_add_data_batch_plain:
  assumes "Buffer_reachable b" and "0 < buffer_size b"
  shows "Buffer_add_data exs None None None b =
           (b\<lparr>num_seen_examples := num_seen_examples b + int (length exs),
              tensors := (tensors b)(''examples'' \<mapsto>
                 spec_fifo_writes (num_seen_examples b) (buffer_size b) exs
                   (case tensors b ''examples'' of
                      None \<Rightarrow> replicate (nat (buffer_size b)) 0
                    | Some t \<Rightarrow> t))\<rparr>, None)"
proof (cases "tensors b ''examples''")
  case None
  let ?z = "replicate (nat (buffer_size b)) (0::'a)"
  let ?s = "b\<lparr>tensors := (tensors b)(''examples'' \<mapsto> ?z)\<rparr>"
  have init: "init_tensors [''examples'' \<mapsto> Some exs, ''labels'' \<mapsto> None,
                 ''logits'' \<mapsto> None, ''task_labels'' \<mapsto> None] b = (?s, None)"
    by (rule init_tensors_Buffer_plain)
       (use assms None Buffer_reachable_inv[OF assms(1)] in simp_all)
  have loop: "for_each (Buffer_add_item exs None None None) [0..<length exs] ?s =
      (?s\<lparr>num_seen_examples := num_seen_examples ?s + int (length exs - 0),
          tensors := (tensors ?s)(''examples'' \<mapsto>
             spec_fifo_writes (num_seen_examples ?s) (buffer_size ?s) (drop 0 exs) ?z)\<rparr>, None)"
    by (rule Buffer_add_loop_plain) (use assms in simp_all)
  show ?thesis
    unfolding Buffer_add_data_def using None by (simp add: init loop)
next
  case (Some t)
  have len: "length t = nat (buffer_size b)"
    using Buffer_reachable_inv[OF assms(1)] Some by (auto simp: wf_buffer_def)
  have loop: "for_each (Buffer_add_item exs None None None) [0..<length exs] b =
      (b\<lparr>num_seen_examples := num_seen_examples b + int (length exs - 0),
          tensors := (tensors b)(''examples'' \<mapsto>
             spec_fifo_writes (num_seen_examples b) (buffer_size b) (drop 0 exs) t)\<rparr>, None)"
    by (rule Buffer_add_loop_plain) (use assms Some len in simp_all)
  show ?thesis
    unfolding Buffer_add_data_def using Some by (simp add: loop)
qed

lemma Buffer_add_data_batch_labelled:
  assumes "Buffer_reachable b" and "0 < buffer_size b" and "length ls = length exs"
    and "tensors b ''examples'' = None \<or> tensors b ''labels'' \<noteq> None"
  shows "Buffer_add_data exs (Some ls) None None b =
           (b\<lparr>num_seen_examples := num_seen_examples b + int (length exs),
              tensors := (tensors b)
                (''examples'' \<mapsto>
                   spec_fifo_writes (num_seen_examples b) (buffer_size b) exs
                     (case tensors b ''examples'' of
                        None \<Rightarrow> replicate (nat (buffer_size b)) 0
                      | Some t \<Rightarrow> t),
                 ''labels'' \<mapsto>
                   spec_fifo_writes (num_seen_examples b) (buffer_size b) ls
                     (case tensors b ''labels'' of
                        None \<Rightarrow> replicate (nat (buffer_size b)) 0
                      | Some u \<Rightarrow> u))\<rparr>, None)"
proof -
  have inv: "wf_buffer b" "attributes b = [''examples'', ''labels'', ''logits'', ''task_labels'']"
    using Buffer_reachable_inv[OF assms(1)] by simp_all
  let ?z = "replicate (nat (buffer_size b)) (0::'a)"
  let ?u = "case tensors b ''labels'' of None \<Rightarrow> ?z | Some u \<Rightarrow> u"
  have ulen: "length ?u = nat (buffer_size b)"
    using inv(1) by (auto simp: wf_buffer_def split: option.splits)
  show ?thesis
  proof (cases "tensors b ''examples''")
    case None
    let ?s = "b\<lparr>tensors := (tensors b)(''examples'' \<mapsto> ?z, ''labels'' \<mapsto> ?u)\<rparr>"
    have init: "init_tensors [''examples'' \<mapsto> Some exs, ''labels'' \<mapsto> Some ls,
                   ''logits'' \<mapsto> None, ''task_labels'' \<mapsto> None] b = (?s, None)"
      by (rule init_tensors_Buffer_labelled) (use assms None inv in simp_all)
    have loop: "for_each (Buffer_add_item exs (Some ls) None None) [0..<length exs] ?s =
        (?s\<lparr>num_seen_examples := num_seen_examples ?s + int (length exs - 0),
            tensors := (tensors ?s)
              (''examples'' \<mapsto>
                 spec_fifo_writes (num_seen_examples ?s) (buffer_size ?s) (drop 0 exs) ?z,
               ''labels'' \<mapsto>
                 spec_fifo_writes (num_seen_examples ?s) (buffer_size ?s) (drop 0 ls) ?u)\<rparr>, None)"
      by (rule Buffer_add_loop_labelled) (use assms ulen in simp_all)
    show ?thesis
      unfolding Buffer_add_data_def using None by (simp add: init loop)
  next
    case (Some t)
    then obtain u where u: "tensors b ''labels'' = Some u" using assms(4) by auto
    have len: "length t = nat (buffer_size b)" "length u = nat (buffer_size b)"
      using inv(1) Some u by (auto simp: wf_buffer_def)
    have loop: "for_each (Buffer_add_item exs (Some ls) None None) [0..<length exs] b =
        (b\<lparr>num_seen_examples := num_seen_examples b + int (length exs - 0),
            tensors := (tensors b)
              (''examples'' \<mapsto>
                 spec_fifo_writes (num_seen_examples b) (buffer_size b) (drop 0 exs) t,
               ''labels'' \<mapsto>
                 spec_fifo_writes (num_seen_examples b) (buffer_size b) (drop 0 ls) u)\<rparr>, None)"
      by (rule Buffer_add_loop_labelled) (use assms Some u len in simp_all)
    show ?thesis
      unfolding Buffer_add_data_def using Some u by (simp add: loop)
  qed
qed

lemma Buffer_add_data_batch_examples:
  assumes "Buffer_reachable b" and "0 < buffer_size b"
    and "snd (Buffer_add_data exs lab lg tk b) = None"
  shows "tensors (fst (Buffer_add_data exs lab lg tk b)) ''examples'' =
           Some (spec_fifo_writes (num_seen_examples b) (buffer_size b) exs
                   (case tensors b ''examples'' of
                      None \<Rightarrow> replicate (nat (buffer_size b)) 0
                    | Some t \<Rightarrow> t))"
proof -
  have inv: "wf_buffer b" "attributes b = [''examples'', ''labels'', ''logits'', ''task_labels'']"
    using Buffer_reachable_inv[OF assms(1)] by simp_all
  let ?init = "if tensors b ''examples'' = None
      then init_tensors [''examples'' \<mapsto> Some exs, ''labels'' \<mapsto> lab, ''logits'' \<mapsto> lg, ''task_labels'' \<mapsto> tk] b
      else (b, None)"
  let ?t0 = "case tensors b ''examples'' of
               None \<Rightarrow> replicate (nat (buffer_size b)) (0::'a) | Some t \<Rightarrow> t"
  have ok: "snd ?init = None"
    "snd (for_each (Buffer_add_item exs lab lg tk) [0..<length exs] (fst ?init)) = None"
    using assms(3) unfolding Buffer_add_data_def and_then_snd_None by simp_all
  have eq: "Buffer_add_data exs lab lg tk b =
      for_each (Buffer_add_item exs lab lg tk) [0..<length exs] (fst ?init)"
    unfolding Buffer_add_data_def using ok(1) by (cases ?init) simp
  have s: "wf_buffer (fst ?init)" "buffer_size (fst ?init) = buffer_size b"
    "num_seen_examples (fst ?init) = num_seen_examples b"
    using inv(1) by (simp_all add: init_tensors_def init_tensors_loop_wf init_tensors_loop_fields)
  have t0: "tensors (fst ?init) ''examples'' = Some ?t0"
  proof (cases "tensors b ''examples''")
    case None
    then show ?thesis
      using init_tensors_Buffer[of b exs lab lg tk] inv(2) assms(2) by simp
  next
    case (Some t)
    then show ?thesis by simp
  qed
  have "tensors (fst (for_each (Buffer_add_item exs lab lg tk) [0..<length exs] (fst ?init)))
          ''examples'' =
        Some (spec_fifo_writes (num_seen_examples (fst ?init)) (buffer_size (fst ?init))
                (drop 0 exs) ?t0)"
    by (rule Buffer_add_loop_examples) (use s t0 assms(2) ok(2) in simp_all)
  then show ?thesis unfolding eq by (simp add: s)
qed

lemma store_item_returns:
  assumes "snd (store_item name index src i s) = None" and "0 \<le> index"
  shows "\<exists>u. tensors s name = Some u \<and> i < length src \<and>
           store_item name index src i s =
             (s\<lparr>tensors := (tensors s)(name \<mapsto> u[nat index := src ! i])\<rparr>, None)"
  using assms
  by (auto simp: store_item_def tensor_get_def tensor_set_def norm_index_def Let_def
      split: sum.splits option.splits if_splits)

lemma store_opt_returns:
  assumes "snd (store_opt name index arg i s) = None" and "0 \<le> index"
  shows "(arg = None \<and> store_opt name index arg i s = (s, None)) \<or>
         (\<exists>src u. arg = Some src \<and> tensors s name = Some u \<and> i < length src \<and>
            store_opt name index arg i s =
              (s\<lparr>tensors := (tensors s)(name \<mapsto> u[nat index := src ! i])\<rparr>, None))"
proof (cases arg)
  case None
  then show ?thesis by (simp add: store_opt_def)
next
  case (Some src)
  then have "snd (store_item name index src i s) = None" using assms(1) by (simp add: store_opt_def)
  from store_item_returns[OF this assms(2)] Some show ?thesis by (simp add: store_opt_def)
qed

lemma store_opt_written:
  assumes "snd (store_opt name index arg i s) = None" and "0 \<le> index"
  shows "(\<forall>src. arg = Some src \<longrightarrow>
            (\<exists>u. tensors s name = Some u \<and> i < length src \<and>
               tensors (fst (store_opt name index arg i s)) name =
                 Some (u[nat index := src ! i]))) \<and>
         (\<forall>name'. name' \<noteq> name \<longrightarrow>
            tensors (fst (store_opt name index arg i s)) name' = tensors s name')"
  using store_opt_returns[OF assms] by (auto simp: store_opt_other)

lemma and_then_returns:
  assumes "snd (and_then r f) = None"
  shows "snd r = None \<and> snd (f (fst r)) = None \<and> and_then r f = f (fst r)"
  using assms by (cases r) (auto simp: and_then_def split: option.splits)

lemma Buffer_add_item_optional:
  assumes "0 < buffer_size s" and "snd (Buffer_add_item exs lab lg tk i s) = None"
    and "(name, Some src) \<in> {(''labels'', lab), (''logits'', lg), (''task_labels'', tk)}"
  shows "\<exists>u. tensors s name = Some u \<and> i < length src \<and>
           tensors (fst (Buffer_add_item exs lab lg tk i s)) name =
             Some (u[nat (num_seen_examples s mod buffer_size s) := src ! i])"
proof -
  let ?index = "num_seen_examples s mod buffer_size s"
  let ?s1 = "s\<lparr>num_seen_examples := num_seen_examples s + 1\<rparr>"
  let ?r1 = "store_item ''examples'' ?index exs i ?s1"
  let ?r2 = "and_then ?r1 (store_opt ''labels'' ?index lab i)"
  let ?r3 = "and_then ?r2 (store_opt ''logits'' ?index lg i)"
  let ?r4 = "and_then ?r3 (store_opt ''task_labels'' ?index tk i)"
  have idx: "0 \<le> ?index" using assms(1) by simp
  have item: "Buffer_add_item exs lab lg tk i s = ?r4"
    using assms(1) by (simp add: Buffer_add_item_def fifo_def py_mod_def Let_def)
  then have r4: "snd ?r4 = None" using assms(2) by simp
  from and_then_returns[OF r4] have r3: "snd ?r3 = None"
    and s5: "snd (store_opt ''task_labels'' ?index tk i (fst ?r3)) = None"
    and e4: "?r4 = store_opt ''task_labels'' ?index tk i (fst ?r3)" by simp_all
  from and_then_returns[OF r3] have r2: "snd ?r2 = None"
    and s4: "snd (store_opt ''logits'' ?index lg i (fst ?r2)) = None"
    and e3: "?r3 = store_opt ''logits'' ?index lg i (fst ?r2)" by simp_all
  from and_then_returns[OF r2] have r1: "snd ?r1 = None"
    and s3: "snd (store_opt ''labels'' ?index lab i (fst ?r1)) = None"
    and e2: "?r2 = store_opt ''labels'' ?index lab i (fst ?r1)" by simp_all
  have t1: "\<And>n. n \<noteq> ''examples'' \<Longrightarrow> tensors (fst ?r1) n = tensors s n"
    by (simp add: store_item_other)
  note w2 = store_opt_written[OF s3 idx] and w3 = store_opt_written[OF s4 idx]
    and w4 = store_opt_written[OF s5 idx]
  have t2: "\<And>n. n \<noteq> ''labels'' \<Longrightarrow> tensors (fst ?r2) n = tensors (fst ?r1) n"
    unfolding e2 using w2 by blast
  have t3: "\<And>n. n \<noteq> ''logits'' \<Longrightarrow> tensors (fst ?r3) n = tensors (fst ?r2) n"
    unfolding e3 using w3 by blast
  have t4: "\<And>n. n \<noteq> ''task_labels'' \<Longrightarrow> tensors (fst ?r4) n = tensors (fst ?r3) n"
    unfolding e4 using w4 by blast
  consider (labels) "name = ''labels''" "lab = Some src"
    | (logits) "name = ''logits''" "lg = Some src"
    | (task) "name = ''task_labels''" "tk = Some src"
    using assms(3) by auto
  then show ?thesis
  proof cases
    case labels
    from w2 labels(2) obtain u where "tensors (fst ?r1) ''labels'' = Some u" "i < length src"
      "tensors (fst ?r2) ''labels'' = Some (u[nat ?index := src ! i])"
      unfolding e2[symmetric] by blast
    then show ?thesis unfolding item labels(1) by (simp add: t1 t3 t4)
  next
    case logits
    from w3 logits(2) obtain u where "tensors (fst ?r2) ''logits'' = Some u" "i < length src"
      "tensors (fst ?r3) ''logits'' = Some (u[nat ?index := src ! i])"
      unfolding e3[symmetric] by blast
    then show ?thesis unfolding item logits(1) by (simp add: t1 t2 t4)
  next
    case task
    from w4 task(2) obtain u where "tensors (fst ?r3) ''task_labels'' = Some u" "i < length src"
      "tensors (fst ?r4) ''task_labels'' = Some (u[nat ?index := src ! i])"
      unfolding e4[symmetric] by blast
    then show ?thesis unfolding item task(1) by (simp add: t1 t2 t3)
  qed
qed

lemma Buffer_add_loop_optional:
  assumes "0 < buffer_size s" and "k \<le> length exs"
    and "snd (for_each (Buffer_add_item exs lab lg tk) [k..<length exs] s) = None"
    and "(name, Some src) \<in> {(''labels'', lab), (''logits'', lg), (''task_labels'', tk)}"
    and "tensors s name = Some u" and "length exs \<le> length src"
  shows "tensors (fst (for_each (Buffer_add_item exs lab lg tk) [k..<length exs] s)) name =
           Some (spec_fifo_writes (num_seen_examples s) (buffer_size s)
                   (drop k (take (length exs) src)) u)"
  using assms(1,2,3,5)
proof (induction "length exs - k" arbitrary: k s u)
  case 0
  then show ?case by simp
next
  case (Suc m)
  then have k: "k < length exs" by simp
  let ?s' = "fst (Buffer_add_item exs lab lg tk k s)"
  let ?u' = "u[nat (num_seen_examples s mod buffer_size s) := src ! k]"
  have r: "[k..<length exs] = k # [Suc k..<length exs]" using k by (simp add: upt_conv_Cons)
  have ok: "snd (Buffer_add_item exs lab lg tk k s) = None"
    "snd (for_each (Buffer_add_item exs lab lg tk) [Suc k..<length exs] ?s') = None"
    using Suc.prems(3) unfolding r for_each.simps and_then_snd_None by simp_all
  have step: "for_each (Buffer_add_item exs lab lg tk) [k..<length exs] s =
      for_each (Buffer_add_item exs lab lg tk) [Suc k..<length exs] ?s'"
    unfolding r for_each.simps using ok(1) by (cases "Buffer_add_item exs lab lg tk k s") simp
  have u': "tensors ?s' name = Some ?u'"
    using Buffer_add_item_optional[OF Suc.prems(1) ok(1) assms(4)] Suc.prems(4) by auto
  have s': "buffer_size ?s' = buffer_size s" "num_seen_examples ?s' = num_seen_examples s + 1"
    using Suc.prems(1) by (simp_all add: Buffer_add_item_fields Buffer_add_item_counter)
  have d: "drop k (take (length exs) src) = src ! k # drop (Suc k) (take (length exs) src)"
    using k assms(6) Cons_nth_drop_Suc[of k "take (length exs) src"] by simp
  have "tensors (fst (for_each (Buffer_add_item exs lab lg tk) [Suc k..<length exs] ?s')) name =
        Some (spec_fifo_writes (num_seen_examples ?s') (buffer_size ?s')
                (drop (Suc k) (take (length exs) src)) ?u')"
    by (rule Suc.hyps(1)) (use Suc.hyps(2) Suc.prems k s' u' ok(2) in simp_all)
  then show ?case unfolding step d by (simp add: s')
qed

lemma init_tensors_loop_at:
  assumes "distinct as" and "name \<in> set as" and "env name = Some (Some src)"
    and "snd (init_tensors_loop as env b) = None"
  shows "tensors (fst (init_tensors_loop as env b)) name =
           Some (case tensors b name of
                   None \<Rightarrow> replicate (nat (buffer_size b)) 0
                 | Some u \<Rightarrow> u)"
  using assms
proof (induction as env b rule: init_tensors_loop.induct)
  case (1 env b)
  then show ?case by simp
next
  case (2 attr_str rest env b)
  from "2.prems"(4) obtain attr where attr: "env attr_str = Some attr"
    by (cases "env attr_str") simp_all
  have rest: "distinct rest" "attr_str \<notin> set rest" using "2.prems"(1) by simp_all
  show ?case
  proof (cases "attr \<noteq> None \<and> tensors b attr_str = None")
    case False
    then have eq: "init_tensors_loop (attr_str # rest) env b = init_tensors_loop rest env b"
      using attr by auto
    show ?thesis
    proof (cases "name = attr_str")
      case True
      then have "tensors b name \<noteq> None" using False attr "2.prems"(3) by auto
      then obtain u where u: "tensors b name = Some u" by auto
      have "tensors (fst (init_tensors_loop rest env b)) name = tensors b name"
        using rest(2) True by (simp add: init_tensors_loop_other)
      then show ?thesis unfolding eq using u by simp
    next
      case neq: False
      then have "name \<in> set rest" using "2.prems"(2) by simp
      then show ?thesis
        unfolding eq using "2.IH"(2)[OF attr False rest(1) _ "2.prems"(3)] "2.prems"(4) eq
        by simp
    qed
  next
    case True
    from "2.prems"(4) attr True obtain z where z: "torch_zeros (buffer_size b) = Inr (z :: 'a list)"
      by (cases "torch_zeros (buffer_size b) :: error + 'a list") simp_all
    then have zv: "z = replicate (nat (buffer_size b)) 0"
      by (auto simp: torch_zeros_def split: if_splits)
    let ?b' = "b\<lparr>tensors := (tensors b)(attr_str \<mapsto> z)\<rparr>"
    have eq: "init_tensors_loop (attr_str # rest) env b = init_tensors_loop rest env ?b'"
      using attr True z by simp
    show ?thesis
    proof (cases "name = attr_str")
      case same: True
      have "tensors (fst (init_tensors_loop rest env ?b')) name = tensors ?b' name"
        using rest(2) same by (simp add: init_tensors_loop_other)
      then show ?thesis unfolding eq using same True zv by simp
    next
      case neq: False
      then have mem: "name \<in> set rest" using "2.prems"(2) by simp
      have "tensors (fst (init_tensors_loop rest env ?b')) name =
          Some (case tensors ?b' name of
                  None \<Rightarrow> replicate (nat (buffer_size ?b')) 0 | Some u \<Rightarrow> u)"
        using "2.IH"(1)[OF attr True z rest(1) mem "2.prems"(3)] "2.prems"(4) eq by simp
      then show ?thesis unfolding eq using neq by (simp split: option.splits)
    qed
  qed
qed

lemma init_tensors_Buffer_optional:
  assumes "attributes b = [''examples'', ''labels'', ''logits'', ''task_labels'']"
    and "(name, Some src) \<in> {(''labels'', lab), (''logits'', lg), (''task_labels'', tk)}"
    and "snd (init_tensors [''examples'' \<mapsto> Some exs, ''labels'' \<mapsto> lab,
                 ''logits'' \<mapsto> lg, ''task_labels'' \<mapsto> tk] b) = None"
  shows "tensors (fst (init_tensors [''examples'' \<mapsto> Some exs, ''labels'' \<mapsto> lab,
                 ''logits'' \<mapsto> lg, ''task_labels'' \<mapsto> tk] b)) name =
           Some (case tensors b name of
                   None \<Rightarrow> replicate (nat (buffer_size b)) 0
                 | Some u \<Rightarrow> u)"
proof -
  let ?env = "[''examples'' \<mapsto> Some exs, ''labels'' \<mapsto> lab, ''logits'' \<mapsto> lg,
               ''task_labels'' \<mapsto> tk]"
  have d: "distinct (attributes b)" by (simp add: assms(1))
  have m: "name \<in> set (attributes b)" using assms(2) by (auto simp: assms(1))
  have e: "?env name = Some (Some src)" using assms(2) by auto
  show ?thesis
    unfolding init_tensors_def
    by (rule init_tensors_loop_at[where env = ?env and src = src, OF d m e])
       (use assms(3) in \<open>simp add: init_tensors_def\<close>)
qed

lemma Buffer_add_data_batch_optional:
  assumes "Buffer_reachable b" and "0 < buffer_size b"
    and "snd (Buffer_add_data exs lab lg tk b) = None"
    and "(name, Some src) \<in> {(''labels'', lab), (''logits'', lg), (''task_labels'', tk)}"
    and "length exs \<le> length src"
    and "tensors b ''examples'' = None \<or> tensors b name \<noteq> None"
  shows "tensors (fst (Buffer_add_data exs lab lg tk b)) name =
           Some (spec_fifo_writes (num_seen_examples b) (buffer_size b) (take (length exs) src)
                   (case tensors b name of
                      None \<Rightarrow> replicate (nat (buffer_size b)) 0
                    | Some u \<Rightarrow> u))"
proof -
  have inv: "wf_buffer b" "attributes b = [''examples'', ''labels'', ''logits'', ''task_labels'']"
    using Buffer_reachable_inv[OF assms(1)] by simp_all
  let ?init = "if tensors b ''examples'' = None
      then init_tensors [''examples'' \<mapsto> Some exs, ''labels'' \<mapsto> lab, ''logits'' \<mapsto> lg, ''task_labels'' \<mapsto> tk] b
      else (b, None)"
  let ?u0 = "case tensors b name of
               None \<Rightarrow> replicate (nat (buffer_size b)) (0::'a) | Some u \<Rightarrow> u"
  have ok: "snd ?init = None"
    "snd (for_each (Buffer_add_item exs lab lg tk) [0..<length exs] (fst ?init)) = None"
    using assms(3) unfolding Buffer_add_data_def and_then_snd_None by simp_all
  have eq: "Buffer_add_data exs lab lg tk b =
      for_each (Buffer_add_item exs lab lg tk) [0..<length exs] (fst ?init)"
    unfolding Buffer_add_data_def using ok(1) by (cases ?init) simp
  have s: "buffer_size (fst ?init) = buffer_size b"
    "num_seen_examples (fst ?init) = num_seen_examples b"
    by (simp_all add: init_tensors_def init_tensors_loop_fields)
  have u0: "tensors (fst ?init) name = Some ?u0"
  proof (cases "tensors b ''examples''")
    case None
    then show ?thesis
      using init_tensors_Buffer_optional[OF inv(2) assms(4), of exs] ok(1) by simp
  next
    case (Some t)
    then show ?thesis using assms(6) by auto
  qed
  have "tensors (fst (for_each (Buffer_add_item exs lab lg tk) [0..<length exs] (fst ?init))) name =
        Some (spec_fifo_writes (num_seen_examples (fst ?init)) (buffer_size (fst ?init))
                (drop 0 (take (length exs) src)) ?u0)"
    by (rule Buffer_add_loop_optional[OF _ _ ok(2) assms(4) u0 assms(5)])
       (use s assms(2) in simp_all)
  then show ?thesis unfolding eq by (simp add: s)
qed

text \<open>
  C1. On a \<open>Buffer\<close> of capacity 3 in fifo mode, five calls of \<open>add_data\<close> with the labels
  10, 20, 30, 40, 50, one item each, raise nothing and leave the labels 40, 50, 30 at
  the slots 0, 1, 2 and the counter at 5. In general, in a reachable state with a
  positive \<open>buffer_size\<close>, the loop of \<open>add_data\<close> computes the slot of each item as
  \<open>num_seen_examples mod buffer_size\<close>, adds one to the counter and writes the item of
  each tensor at that slot; a call that returns has added the number of items of the
  batch to the counter. For a batch of any length, \<open>add_data\<close> itself does this for every
  item in turn: a call with \<open>examples\<close> alone, or with \<open>examples\<close> and as many \<open>labels\<close>,
  returns the object whose counter has gone up by the length of the batch and whose
  tensors are what the specification's item-by-item writing gives, and whenever a call
  returns, whatever its optional arguments, \<open>examples\<close> holds that result, and so does
  the tensor of every optional argument that was given.
\<close>

theorem Buffer_add_data_fifo:
  "snd example_Buffer_scenario = None \<and>
   tensors (fst example_Buffer_scenario) ''labels'' = Some [40, 50, 30] \<and>
   num_seen_examples (fst example_Buffer_scenario) = 5 \<and>
   (Buffer_reachable b \<and> 0 < buffer_size b \<and> tensors b ''examples'' = Some t \<and>
    i < length examples \<longrightarrow>
      fifo (num_seen_examples b) (buffer_size b) = Inr (num_seen_examples b mod buffer_size b) \<and>
      tensors (fst (Buffer_add_item examples labels logits task_labels i b)) ''examples'' =
        Some (t[nat (num_seen_examples b mod buffer_size b) := examples ! i]) \<and>
      num_seen_examples (fst (Buffer_add_item examples labels logits task_labels i b)) =
        num_seen_examples b + 1) \<and>
   (Buffer_reachable b \<and> 0 < buffer_size b \<and> tensors b ''examples'' = Some t \<and>
    i < length examples \<and> tensors b ''labels'' = Some u \<and> i < length ls \<longrightarrow>
      tensors (fst (Buffer_add_item examples (Some ls) logits task_labels i b)) ''labels'' =
        Some (u[nat (num_seen_examples b mod buffer_size b) := ls ! i])) \<and>
   (Buffer_reachable b \<and> 0 < buffer_size b \<and> tensors b ''examples'' = Some t \<longrightarrow>
      Buffer_add_data [e] None None None b =
        (b\<lparr>num_seen_examples := num_seen_examples b + 1,
           tensors := (tensors b)(''examples'' \<mapsto>
              t[nat (num_seen_examples b mod buffer_size b) := e])\<rparr>, None)) \<and>
   (snd (Buffer_add_data examples labels logits task_labels b) = None \<longrightarrow>
      num_seen_examples (fst (Buffer_add_data examples labels logits task_labels b)) =
        num_seen_examples b + int (length examples)) \<and>
   (Buffer_reachable b \<and> 0 < buffer_size b \<longrightarrow>
      Buffer_add_data examples None None None b =
        (b\<lparr>num_seen_examples := num_seen_examples b + int (length examples),
           tensors := (tensors b)(''examples'' \<mapsto>
              spec_fifo_writes (num_seen_examples b) (buffer_size b) examples
                (case tensors b ''examples'' of
                   None \<Rightarrow> replicate (nat (buffer_size b)) 0
                 | Some t \<Rightarrow> t))\<rparr>, None)) \<and>
   (Buffer_reachable b \<and> 0 < buffer_size b \<and> length ls = length examples \<and>
    (tensors b ''examples'' = None \<or> tensors b ''labels'' \<noteq> None) \<longrightarrow>
      Buffer_add_data examples (Some ls) None None b =
        (b\<lparr>num_seen_examples := num_seen_examples b + int (length examples),
           tensors := (tensors b)
             (''examples'' \<mapsto>
                spec_fifo_writes (num_seen_examples b) (buffer_size b) examples
                  (case tensors b ''examples'' of
                     None \<Rightarrow> replicate (nat (buffer_size b)) 0
                   | Some t \<Rightarrow> t),
              ''labels'' \<mapsto>
                spec_fifo_writes (num_seen_examples b) (buffer_size b) ls
                  (case tensors b ''labels'' of
                     None \<Rightarrow> replicate (nat (buffer_size b)) 0
                   | Some u \<Rightarrow> u))\<rparr>, None)) \<and>
   (Buffer_reachable b \<and> 0 < buffer_size b \<and>
    snd (Buffer_add_data examples labels logits task_labels b) = None \<longrightarrow>
      tensors (fst (Buffer_add_data examples labels logits task_labels b)) ''examples'' =
        Some (spec_fifo_writes (num_seen_examples b) (buffer_size b) examples
                (case tensors b ''examples'' of
                   None \<Rightarrow> replicate (nat (buffer_size b)) 0
                 | Some t \<Rightarrow> t))) \<and>
   (Buffer_reachable b \<and> 0 < buffer_size b \<and>
    snd (Buffer_add_data examples labels logits task_labels b) = None \<and>
    (name, Some src) \<in> {(''labels'', labels), (''logits'', logits), (''task_labels'', task_labels)} \<and>
    length examples \<le> length src \<and>
    (tensors b ''examples'' = None \<or> tensors b name \<noteq> None) \<longrightarrow>
      tensors (fst (Buffer_add_data examples labels logits task_labels b)) name =
        Some (spec_fifo_writes (num_seen_examples b) (buffer_size b)
                (take (length examples) src)
                (case tensors b name of
                   None \<Rightarrow> replicate (nat (buffer_size b)) 0
                 | Some v \<Rightarrow> v)))"
proof (intro conjI impI)
  show "snd example_Buffer_scenario = None" by code_simp
  show "tensors (fst example_Buffer_scenario) ''labels'' = Some [40, 50, 30]" by code_simp
  show "num_seen_examples (fst example_Buffer_scenario) = 5" by code_simp
next
  assume a: "Buffer_reachable b \<and> 0 < buffer_size b \<and> tensors b ''examples'' = Some t \<and>
    i < length examples"
  then have wf: "wf_buffer b" by (simp add: Buffer_reachable_inv)
  show "fifo (num_seen_examples b) (buffer_size b) = Inr (num_seen_examples b mod buffer_size b)"
    using a by (simp add: fifo_def py_mod_def)
  show "tensors (fst (Buffer_add_item examples labels logits task_labels i b)) ''examples'' =
        Some (t[nat (num_seen_examples b mod buffer_size b) := examples ! i])"
    using a wf by (simp add: Buffer_add_item_examples)
  show "num_seen_examples (fst (Buffer_add_item examples labels logits task_labels i b)) =
        num_seen_examples b + 1"
    using a by (simp add: Buffer_add_item_counter)
next
  assume a: "Buffer_reachable b \<and> 0 < buffer_size b \<and> tensors b ''examples'' = Some t \<and>
    i < length examples \<and> tensors b ''labels'' = Some u \<and> i < length ls"
  then have wf: "wf_buffer b" by (simp add: Buffer_reachable_inv)
  show "tensors (fst (Buffer_add_item examples (Some ls) logits task_labels i b)) ''labels'' =
        Some (u[nat (num_seen_examples b mod buffer_size b) := ls ! i])"
    using a wf Buffer_add_item_labels[of b t i examples u ls logits task_labels] by simp
next
  assume a: "Buffer_reachable b \<and> 0 < buffer_size b \<and> tensors b ''examples'' = Some t"
  then have wf: "wf_buffer b" by (simp add: Buffer_reachable_inv)
  show "Buffer_add_data [e] None None None b =
        (b\<lparr>num_seen_examples := num_seen_examples b + 1,
           tensors := (tensors b)(''examples'' \<mapsto>
              t[nat (num_seen_examples b mod buffer_size b) := e])\<rparr>, None)"
    using a wf by (simp add: Buffer_add_data_single)
next
  assume "snd (Buffer_add_data examples labels logits task_labels b) = None"
  then show "num_seen_examples (fst (Buffer_add_data examples labels logits task_labels b)) =
        num_seen_examples b + int (length examples)"
    by (rule Buffer_add_data_counter)
next
  assume a: "Buffer_reachable b \<and> 0 < buffer_size b"
  show "Buffer_add_data examples None None None b =
        (b\<lparr>num_seen_examples := num_seen_examples b + int (length examples),
           tensors := (tensors b)(''examples'' \<mapsto>
              spec_fifo_writes (num_seen_examples b) (buffer_size b) examples
                (case tensors b ''examples'' of
                   None \<Rightarrow> replicate (nat (buffer_size b)) 0
                 | Some t \<Rightarrow> t))\<rparr>, None)"
    by (rule Buffer_add_data_batch_plain) (use a in simp_all)
next
  assume a: "Buffer_reachable b \<and> 0 < buffer_size b \<and> length ls = length examples \<and>
    (tensors b ''examples'' = None \<or> tensors b ''labels'' \<noteq> None)"
  show "Buffer_add_data examples (Some ls) None None b =
        (b\<lparr>num_seen_examples := num_seen_examples b + int (length examples),
           tensors := (tensors b)
             (''examples'' \<mapsto>
                spec_fifo_writes (num_seen_examples b) (buffer_size b) examples
                  (case tensors b ''examples'' of
                     None \<Rightarrow> replicate (nat (buffer_size b)) 0
                   | Some t \<Rightarrow> t),
              ''labels'' \<mapsto>
                spec_fifo_writes (num_seen_examples b) (buffer_size b) ls
                  (case tensors b ''labels'' of
                     None \<Rightarrow> replicate (nat (buffer_size b)) 0
                   | Some u \<Rightarrow> u))\<rparr>, None)"
    by (rule Buffer_add_data_batch_labelled) (use a in simp_all)
next
  assume a: "Buffer_reachable b \<and> 0 < buffer_size b \<and>
    snd (Buffer_add_data examples labels logits task_labels b) = None"
  show "tensors (fst (Buffer_add_data examples labels logits task_labels b)) ''examples'' =
        Some (spec_fifo_writes (num_seen_examples b) (buffer_size b) examples
                (case tensors b ''examples'' of
                   None \<Rightarrow> replicate (nat (buffer_size b)) 0
                 | Some t \<Rightarrow> t))"
    by (rule Buffer_add_data_batch_examples) (use a in simp_all)
next
  assume a: "Buffer_reachable b \<and> 0 < buffer_size b \<and>
    snd (Buffer_add_data examples labels logits task_labels b) = None \<and>
    (name, Some src) \<in> {(''labels'', labels), (''logits'', logits), (''task_labels'', task_labels)} \<and>
    length examples \<le> length src \<and>
    (tensors b ''examples'' = None \<or> tensors b name \<noteq> None)"
  show "tensors (fst (Buffer_add_data examples labels logits task_labels b)) name =
        Some (spec_fifo_writes (num_seen_examples b) (buffer_size b)
                (take (length examples) src)
                (case tensors b name of
                   None \<Rightarrow> replicate (nat (buffer_size b)) 0
                 | Some v \<Rightarrow> v))"
    by (rule Buffer_add_data_batch_optional) (use a in simp_all)
qed

lemma example_Buffer1_reachable: "Buffer_reachable example_Buffer1"
  unfolding example_Buffer1_def
  by (intro Buffer_reachable_add_data Buffer_reachable_init[OF example_Buffer_init])

lemma example_Buffer1_state:
  "tensors example_Buffer1 ''examples'' = Some [10, 0, 0]"
  "tensors example_Buffer1 ''labels'' = Some [10, 0, 0]"
  "num_seen_examples example_Buffer1 = 1"
  "buffer_size example_Buffer1 = 3"
  by code_simp+

theorem Buffer_add_data_fifo_witness:
  "Buffer_reachable example_Buffer1 \<and> 0 < buffer_size example_Buffer1 \<and>
   tensors example_Buffer1 ''examples'' = Some [10, 0, 0] \<and>
   tensors example_Buffer1 ''labels'' = Some [10, 0, 0] \<and>
   0 < length [20 :: int] \<and>
   fifo (num_seen_examples example_Buffer1) (buffer_size example_Buffer1) = Inr 1 \<and>
   tensors (fst (Buffer_add_item [20] (Some [20]) None None 0 example_Buffer1)) ''examples'' =
     Some [10, 20, 0] \<and>
   tensors (fst (Buffer_add_item [20] (Some [20]) None None 0 example_Buffer1)) ''labels'' =
     Some [10, 20, 0] \<and>
   num_seen_examples (fst (Buffer_add_item [20] (Some [20]) None None 0 example_Buffer1)) = 2 \<and>
   fst (Buffer_add_data [20] None None None example_Buffer1) =
     example_Buffer1\<lparr>num_seen_examples := 2,
        tensors := (tensors example_Buffer1)(''examples'' \<mapsto> [10, 20, 0])\<rparr> \<and>
   snd (Buffer_add_data [20] None None None example_Buffer1) = None \<and>
   num_seen_examples (fst (Buffer_add_data [20] None None None example_Buffer1)) = 2 \<and>
   length [21, 31, 41 :: int] = length [20, 30, 40 :: int] \<and>
   Buffer_add_data [20, 30, 40] None None None example_Buffer1 =
     (example_Buffer1\<lparr>num_seen_examples := 4,
        tensors := (tensors example_Buffer1)(''examples'' \<mapsto> [40, 20, 30])\<rparr>, None) \<and>
   Buffer_add_data [20, 30, 40] (Some [21, 31, 41]) None None example_Buffer1 =
     (example_Buffer1\<lparr>num_seen_examples := 4,
        tensors := (tensors example_Buffer1)
          (''examples'' \<mapsto> [40, 20, 30], ''labels'' \<mapsto> [41, 21, 31])\<rparr>, None) \<and>
   tensors (fst (Buffer_add_data [20, 30, 40] (Some [21, 31, 41]) None None example_Buffer1))
     ''examples'' = Some [40, 20, 30] \<and>
   Buffer_reachable example_Buffer \<and> 0 < buffer_size example_Buffer \<and>
   tensors example_Buffer ''examples'' = None \<and>
   snd (Buffer_add_data [20, 30, 40, 50] None (Some [1, 2, 3, 4]) None example_Buffer) = None \<and>
   tensors (fst (Buffer_add_data [20, 30, 40, 50] None (Some [1, 2, 3, 4]) None example_Buffer))
     ''logits'' = Some [4, 2, 3]"
proof -
  have fresh0: "Buffer_reachable example_Buffer"
    by (rule Buffer_reachable_init[OF example_Buffer_init])
  have fresh: "0 < buffer_size example_Buffer"
    "tensors example_Buffer ''examples'' = None" "tensors example_Buffer ''logits'' = None"
    "num_seen_examples example_Buffer = 0" "buffer_size example_Buffer = 3"
    by (simp_all add: example_Buffer_def)
  have ret: "snd (Buffer_add_data [20, 30, 40, 50] None (Some [1, 2, 3, 4]) None example_Buffer) =
      None"
    by code_simp
  have z: "(replicate 3 (0::int))[0 := 1, Suc 0 := 2, 2 := 3, 0 := 4] = [4, 2, 3]"
    by code_simp
  note T4 = Buffer_add_data_fifo[where b = example_Buffer and examples = "[20, 30, 40, 50]"
      and labels = None and logits = "Some [1, 2, 3, 4]" and task_labels = None
      and name = "''logits''" and src = "[1, 2, 3, 4]" and i = 0 and t = "[]" and u = "[]"
      and ls = "[]" and e = 0]
  have opt: "tensors (fst (Buffer_add_data [20, 30, 40, 50] None (Some [1, 2, 3, 4]) None
      example_Buffer)) ''logits'' = Some [4, 2, 3]"
    using T4 fresh0 fresh ret by (simp add: z)
  have w: "spec_fifo_writes 1 3 [20, 30, 40] [10, 0, 0 :: int] = [40, 20, 30]"
    "spec_fifo_writes 1 3 [21, 31, 41] [10, 0, 0 :: int] = [41, 21, 31]"
    by code_simp+
  note T1 = Buffer_add_data_fifo[where b = example_Buffer1 and t = "[10, 0, 0]" and i = 0
      and examples = "[20]" and labels = "Some [20]" and logits = None and task_labels = None
      and u = "[10, 0, 0]" and ls = "[20]" and e = 20]
  note T2 = Buffer_add_data_fifo[where b = example_Buffer1 and t = "[10, 0, 0]" and i = 0
      and examples = "[20]" and labels = None and logits = None and task_labels = None
      and u = "[10, 0, 0]" and ls = "[20]" and e = 20]
  note T3 = Buffer_add_data_fifo[where b = example_Buffer1 and t = "[10, 0, 0]" and i = 0
      and examples = "[20, 30, 40]" and labels = "Some [21, 31, 41]" and logits = None
      and task_labels = None and u = "[10, 0, 0]" and ls = "[21, 31, 41]" and e = 20]
  have batch: "Buffer_add_data [20, 30, 40] (Some [21, 31, 41]) None None example_Buffer1 =
     (example_Buffer1\<lparr>num_seen_examples := 4,
        tensors := (tensors example_Buffer1)
          (''examples'' \<mapsto> [40, 20, 30], ''labels'' \<mapsto> [41, 21, 31])\<rparr>, None)"
    using T3 example_Buffer1_reachable example_Buffer1_state by (simp add: w)
  have plain: "Buffer_add_data [20, 30, 40] None None None example_Buffer1 =
     (example_Buffer1\<lparr>num_seen_examples := 4,
        tensors := (tensors example_Buffer1)(''examples'' \<mapsto> [40, 20, 30])\<rparr>, None)"
    using T3 example_Buffer1_reachable example_Buffer1_state by (simp add: w)
  have single: "fifo (num_seen_examples example_Buffer1) (buffer_size example_Buffer1) = Inr 1 \<and>
   tensors (fst (Buffer_add_item [20] (Some [20]) None None 0 example_Buffer1)) ''examples'' =
     Some [10, 20, 0] \<and>
   tensors (fst (Buffer_add_item [20] (Some [20]) None None 0 example_Buffer1)) ''labels'' =
     Some [10, 20, 0] \<and>
   num_seen_examples (fst (Buffer_add_item [20] (Some [20]) None None 0 example_Buffer1)) = 2 \<and>
   fst (Buffer_add_data [20] None None None example_Buffer1) =
     example_Buffer1\<lparr>num_seen_examples := 2,
        tensors := (tensors example_Buffer1)(''examples'' \<mapsto> [10, 20, 0])\<rparr> \<and>
   snd (Buffer_add_data [20] None None None example_Buffer1) = None \<and>
   num_seen_examples (fst (Buffer_add_data [20] None None None example_Buffer1)) = 2"
    using T1 T2 example_Buffer1_reachable example_Buffer1_state by simp
  show ?thesis
    using single batch plain opt ret fresh0 fresh example_Buffer1_reachable
      example_Buffer1_state
    by simp
qed

subsection \<open>\<open>Buffer.get_data\<close>\<close>

lemma selections_props:
  "distinct xs \<Longrightarrow> ys \<in> set (selections k xs) \<Longrightarrow>
     distinct ys \<and> set ys \<subseteq> set xs \<and> length ys = k"
proof (induction k arbitrary: xs ys)
  case 0
  then show ?case by simp
next
  case (Suc k)
  from Suc.prems(2) obtain x zs where
    x: "x \<in> set xs" and zs: "zs \<in> set (selections k (remove1 x xs))" and ys: "ys = x # zs"
    by auto
  have d: "distinct (remove1 x xs)" using Suc.prems(1) by simp
  have ih: "distinct zs" "set zs \<subseteq> set (remove1 x xs)" "length zs = k"
    using Suc.IH[OF d zs] by simp_all
  have "set (remove1 x xs) = set xs - {x}" using Suc.prems(1) by simp
  then show ?case using ih x ys by auto
qed

lemma selections_nonempty: "k \<le> length xs \<Longrightarrow> selections k xs \<noteq> []"
proof (induction k arbitrary: xs)
  case 0
  then show ?case by simp
next
  case (Suc k)
  then obtain x rest where xs: "xs = x # rest" by (cases xs) auto
  have "k \<le> length (remove1 x xs)" using Suc.prems xs by simp
  then have "selections k (remove1 x xs) \<noteq> []" by (rule Suc.IH)
  then show ?case using xs by simp
qed

lemma gather_attrs_lengths:
  "gather_attrs as ts (\<lambda>attr. tensor_gather attr ch) = Inr others \<Longrightarrow>
     \<forall>rows \<in> set others. length rows = length ch"
proof (induction as arbitrary: others)
  case Nil
  then show ?case by simp
next
  case (Cons a as)
  then show ?case
    by (auto simp: tensor_gather_def split: option.splits sum.splits if_splits)
qed

lemma gather_attrs_ok:
  assumes "\<And>name u. ts name = Some u \<Longrightarrow> \<forall>j \<in> set ch. j < length u"
  shows "\<exists>others. gather_attrs as ts (\<lambda>attr. tensor_gather attr ch) = Inr others"
proof (induction as)
  case Nil
  then show ?case by simp
next
  case (Cons a as)
  then obtain others where o: "gather_attrs as ts (\<lambda>attr. tensor_gather attr ch) = Inr others"
    by blast
  show ?case
  proof (cases "ts a")
    case None
    then show ?thesis using o by simp
  next
    case (Some u)
    then have "tensor_gather u ch = Inr (map ((!) u) ch)"
      using assms[OF Some] by (simp add: tensor_gather_def list_all_iff)
    then show ?thesis using o Some by simp
  qed
qed

lemma get_data_for_result:
  assumes "get_data_for transform b t ch = Inr r"
  shows "choice r = ch \<and> (\<forall>rows \<in> set (ret_tuple r). length rows = length ch) \<and>
         hd (ret_tuple r) = map (\<lambda>j. apply_transform transform (t ! j)) ch"
proof -
  from assms obtain rows first others where
    rows: "tensor_gather t ch = Inr rows"
    and first: "torch_stack (map (apply_transform transform) rows) = Inr first"
    and others: "gather_attrs (tl (attributes b)) (tensors b) (\<lambda>attr. tensor_gather attr ch) = Inr others"
    and r: "r = \<lparr>choice = ch, ret_tuple = first # others\<rparr>"
    by (auto simp: get_data_for_def split: sum.splits)
  have "rows = map ((!) t) ch" using rows by (auto simp: tensor_gather_def split: if_splits)
  moreover have "first = map (apply_transform transform) rows"
    using first by (auto simp: torch_stack_def split: if_splits)
  ultimately show ?thesis using r gather_attrs_lengths[OF others] by (simp add: comp_def)
qed

text \<open>
  C3. On a reachable \<open>Buffer\<close> that holds \<open>examples\<close>, let
  \<open>n = min(num_seen_examples, buffer_size)\<close>. Every result of \<open>get_data(size)\<close> that is
  not an exception was built from indices that are pairwise distinct and lie in
  \<open>[0, n)\<close>; their number is \<open>min(size, n)\<close>, and every tensor of the returned tuple has
  that many rows, the first one being the chosen \<open>examples\<close> after the transform. For a
  positive \<open>size\<close> and a positive \<open>n\<close> the call has results and none of them is an
  exception.
\<close>

theorem Buffer_get_data_distinct:
  assumes "Buffer_reachable b" and "tensors b ''examples'' = Some t"
  shows "(\<forall>r. Inr r \<in> set (Buffer_get_data sz transform b) \<longrightarrow>
            distinct (choice r) \<and>
            (\<forall>j \<in> set (choice r). int j < min (num_seen_examples b) (buffer_size b)) \<and>
            int (length (choice r)) = min sz (min (num_seen_examples b) (buffer_size b)) \<and>
            (\<forall>rows \<in> set (ret_tuple r). length rows = length (choice r)) \<and>
            hd (ret_tuple r) = map (\<lambda>j. apply_transform transform (t ! j)) (choice r)) \<and>
         (0 < sz \<and> 0 < min (num_seen_examples b) (buffer_size b) \<longrightarrow>
            Buffer_get_data sz transform b \<noteq> [] \<and>
            (\<forall>res \<in> set (Buffer_get_data sz transform b). \<exists>r. res = Inr r))"
proof -
  define n where "n = min (num_seen_examples b) (buffer_size b)"
  define k where "k = (if sz > n then n else sz)"
  have wf: "wf_buffer b" using assms(1) by (simp add: Buffer_reachable_inv)
  have len: "0 \<le> buffer_size b" "length t = nat (buffer_size b)"
    using wf assms(2) by (auto simp: wf_buffer_def)
  have n0: "0 \<le> n" using wf len by (simp add: n_def wf_buffer_def)
  have n_eq: "min (num_seen_examples b) (int (length t)) = n" using len by (simp add: n_def)
  have k_eq: "k = min sz n" by (simp add: k_def)
  have gd: "Buffer_get_data sz transform b =
      (case random_choice n k of
         Inl e \<Rightarrow> [Inl e]
       | Inr choices \<Rightarrow> map (get_data_for transform b t) choices)"
    using assms(2) by (simp add: Buffer_get_data_def Let_def n_eq k_def)
  have part1: "distinct (choice r) \<and> (\<forall>j \<in> set (choice r). int j < n) \<and>
      int (length (choice r)) = min sz n \<and>
      (\<forall>rows \<in> set (ret_tuple r). length rows = length (choice r)) \<and>
      hd (ret_tuple r) = map (\<lambda>j. apply_transform transform (t ! j)) (choice r)"
    if r: "Inr r \<in> set (Buffer_get_data sz transform b)" for r
  proof -
    from r obtain choices where c: "random_choice n k = Inr choices"
      and r': "Inr r \<in> set (map (get_data_for transform b t) choices)"
      unfolding gd by (cases "random_choice n k") auto
    from c have k0: "0 \<le> k" and kn: "k \<le> n"
      and choices: "choices = selections (nat k) [0..<nat n]"
      by (auto simp: random_choice_def split: if_splits)
    from r' obtain ch where ch: "ch \<in> set choices" and res: "get_data_for transform b t ch = Inr r"
      by auto
    have sel: "distinct ch" "set ch \<subseteq> set [0..<nat n]" "length ch = nat k"
      using selections_props[of "[0..<nat n]" ch "nat k"] ch choices by simp_all
    have "\<forall>j \<in> set ch. int j < n" using sel(2) by auto
    then show ?thesis
      using get_data_for_result[OF res] sel k0 k_eq by simp
  qed
  have part2: "Buffer_get_data sz transform b \<noteq> [] \<and>
      (\<forall>res \<in> set (Buffer_get_data sz transform b). \<exists>r. res = Inr r)"
    if pos: "0 < sz \<and> 0 < n"
  proof -
    have k: "0 < k" "k \<le> n" using pos by (simp_all add: k_def)
    have c: "random_choice n k = Inr (selections (nat k) [0..<nat n])"
      using k by (simp add: random_choice_def)
    have ne: "selections (nat k) [0..<nat n] \<noteq> []"
      by (rule selections_nonempty) (use k in simp)
    have ok: "\<exists>r. get_data_for transform b t ch = Inr r"
      if ch: "ch \<in> set (selections (nat k) [0..<nat n])" for ch
    proof -
      have sel: "set ch \<subseteq> set [0..<nat n]" "length ch = nat k"
        using selections_props[of "[0..<nat n]" ch "nat k"] ch by simp_all
      have bound: "\<forall>j \<in> set ch. j < nat (buffer_size b)"
        using sel(1) by (auto simp: n_def)
      have rows: "tensor_gather t ch = Inr (map ((!) t) ch)"
        using bound len by (simp add: tensor_gather_def list_all_iff)
      have "ch \<noteq> []" using sel(2) k by auto
      then have first: "torch_stack (map (apply_transform transform) (map ((!) t) ch)) =
          Inr (map (apply_transform transform) (map ((!) t) ch))"
        by (simp add: torch_stack_def)
      have "\<And>name u. tensors b name = Some u \<Longrightarrow> \<forall>j \<in> set ch. j < length u"
        using wf bound by (auto simp: wf_buffer_def)
      then obtain others where
        "gather_attrs (tl (attributes b)) (tensors b) (\<lambda>attr. tensor_gather attr ch) = Inr others"
        using gather_attrs_ok[of "tensors b" ch "tl (attributes b)"] by blast
      then show ?thesis using rows first by (simp add: get_data_for_def)
    qed
    show ?thesis unfolding gd c using ne ok by auto
  qed
  show ?thesis using part1 part2 unfolding n_def by blast
qed

lemma example_Buffer_scenario_reachable: "Buffer_reachable (fst example_Buffer_scenario)"
  unfolding example_Buffer_scenario_def
  by (rule for_each_preserves[where P = Buffer_reachable])
     (simp_all add: Buffer_reachable_add_data Buffer_reachable_init[OF example_Buffer_init])

lemma example_Buffer_scenario_state:
  "tensors (fst example_Buffer_scenario) ''examples'' = Some [40, 50, 30]"
  "num_seen_examples (fst example_Buffer_scenario) = 5"
  "buffer_size (fst example_Buffer_scenario) = 3"
  by code_simp+

lemma example_Buffer_scenario_get_data:
  "Buffer_get_data 2 None (fst example_Buffer_scenario) =
     [Inr \<lparr>choice = [0, 1], ret_tuple = [[40, 50], [40, 50]]\<rparr>,
      Inr \<lparr>choice = [0, 2], ret_tuple = [[40, 30], [40, 30]]\<rparr>,
      Inr \<lparr>choice = [1, 0], ret_tuple = [[50, 40], [50, 40]]\<rparr>,
      Inr \<lparr>choice = [1, 2], ret_tuple = [[50, 30], [50, 30]]\<rparr>,
      Inr \<lparr>choice = [2, 0], ret_tuple = [[30, 40], [30, 40]]\<rparr>,
      Inr \<lparr>choice = [2, 1], ret_tuple = [[30, 50], [30, 50]]\<rparr>]"
  by code_simp

theorem Buffer_get_data_distinct_witness:
  "Buffer_reachable (fst example_Buffer_scenario) \<and>
   tensors (fst example_Buffer_scenario) ''examples'' = Some [40, 50, 30] \<and>
   Inr \<lparr>choice = [2, 0], ret_tuple = [[30, 40], [30, 40]]\<rparr>
     \<in> set (Buffer_get_data 2 None (fst example_Buffer_scenario)) \<and>
   distinct (choice \<lparr>choice = [2, 0], ret_tuple = [[30, 40], [30, 40 :: int]]\<rparr>) \<and>
   int (length (choice \<lparr>choice = [2, 0], ret_tuple = [[30, 40], [30, 40 :: int]]\<rparr>)) =
     min 2 (min (num_seen_examples (fst example_Buffer_scenario))
                (buffer_size (fst example_Buffer_scenario))) \<and>
   0 < min (num_seen_examples (fst example_Buffer_scenario))
           (buffer_size (fst example_Buffer_scenario)) \<and>
   Buffer_get_data 2 None (fst example_Buffer_scenario) \<noteq> []"
proof -
  have m: "Inr \<lparr>choice = [2, 0], ret_tuple = [[30, 40], [30, 40]]\<rparr>
     \<in> set (Buffer_get_data 2 None (fst example_Buffer_scenario))"
    by (simp add: example_Buffer_scenario_get_data)
  have p: "0 < min (num_seen_examples (fst example_Buffer_scenario))
           (buffer_size (fst example_Buffer_scenario))"
    by (simp add: example_Buffer_scenario_state)
  note T = Buffer_get_data_distinct[OF example_Buffer_scenario_reachable
      example_Buffer_scenario_state(1), of 2 None]
  from T m have A:
    "distinct (choice \<lparr>choice = [2, 0], ret_tuple = [[30, 40], [30, 40 :: int]]\<rparr>) \<and>
     int (length (choice \<lparr>choice = [2, 0], ret_tuple = [[30, 40], [30, 40 :: int]]\<rparr>)) =
       min 2 (min (num_seen_examples (fst example_Buffer_scenario))
                  (buffer_size (fst example_Buffer_scenario)))"
    by blast
  from T p have B: "Buffer_get_data 2 None (fst example_Buffer_scenario) \<noteq> []"
    by simp
  show ?thesis
    using m p A B example_Buffer_scenario_reachable example_Buffer_scenario_state(1)
    by simp
qed

subsection \<open>The slow stream buffer\<close>

lemma SlowStreamBuffer_reachable_logits:
  assumes "SlowStreamBuffer_reachable b"
  shows "slow_x b \<noteq> None \<longrightarrow> slow_logits b \<noteq> []"
  using assms
proof (induction rule: SlowStreamBuffer_reachable.induct)
  case (Slow_reachable_init bsize seq_len pred_len sample_freq)
  then show ?case by (simp add: SlowStreamBuffer_init_def)
next
  case (Slow_reachable_add_data b x logits)
  then show ?case
    by (simp add: SlowStreamBuffer_add_data_def Let_def py_floordiv_def split: option.splits)
next
  case (Slow_reachable_clear b)
  then show ?case by (simp add: SlowStreamBuffer_clear_def)
qed

lemma slice_from_drop: "0 \<le> s \<Longrightarrow> slice_from s t = drop (nat s) t"
  by (simp add: slice_from_def)

lemma slice_from_newest:
  "0 < s \<Longrightarrow> s \<le> int (length t) \<Longrightarrow>
     slice_from (- s) t = drop (length t - nat s) t \<and> length (slice_from (- s) t) = nat s"
  by (simp add: slice_from_def nat_diff_distrib')

text \<open>
  C6 as stated fails where the series or \<open>x\<close> has fewer than \<open>sample_freq\<close> time steps.
  A \<open>SlowStreamBuffer(1, 1, 1, 3)\<close> fed one time step per call is reachable with a series
  of two time steps and a length that has reached the capacity: the next \<open>add_data\<close>
  drops these two time steps, not three, and appends the one time step of \<open>x\<close>. On the
  buffer with \<open>sample_freq = 2\<close> and six time steps, \<open>add_data\<close> of an \<open>x\<close> of one time
  step drops two time steps and appends one.
\<close>

theorem SlowStreamBuffer_add_data_short:
  "SlowStreamBuffer_reachable example_SlowStreamBuffer_short \<and>
   slow_x example_SlowStreamBuffer_short = Some [1, 2] \<and>
   slow_sample_freq example_SlowStreamBuffer_short = 3 \<and>
   slow_buffer_size example_SlowStreamBuffer_short
     \<le> slow_length example_SlowStreamBuffer_short \<and>
   int (length [1, 2 :: int]) < slow_sample_freq example_SlowStreamBuffer_short \<and>
   slow_x (fst (SlowStreamBuffer_add_data [3] 30 example_SlowStreamBuffer_short)) = Some [3] \<and>
   SlowStreamBuffer_reachable example_SlowStreamBuffer \<and>
   slow_x example_SlowStreamBuffer = Some [1, 2, 3, 4, 5, 6] \<and>
   slow_sample_freq example_SlowStreamBuffer = 2 \<and>
   slow_buffer_size example_SlowStreamBuffer \<le> slow_length example_SlowStreamBuffer \<and>
   slow_x (fst (SlowStreamBuffer_add_data [7] 300 example_SlowStreamBuffer)) =
     Some [3, 4, 5, 6, 7]"
proof -
  have r1: "SlowStreamBuffer_reachable example_SlowStreamBuffer_short"
    unfolding example_SlowStreamBuffer_short_def
    by (intro Slow_reachable_add_data Slow_reachable_init)
  have r2: "SlowStreamBuffer_reachable example_SlowStreamBuffer"
    unfolding example_SlowStreamBuffer_def
    by (intro Slow_reachable_add_data Slow_reachable_init)
  have s1: "example_SlowStreamBuffer_short =
     \<lparr>slow_buffer_size = 1, slow_seq_len = 1, slow_pred_len = 1, slow_sample_freq = 3,
      slow_x = Some [1, 2], slow_length = 1, slow_logits = [10, 20]\<rparr>"
    by code_simp
  have s2: "example_SlowStreamBuffer =
     \<lparr>slow_buffer_size = 1, slow_seq_len = 2, slow_pred_len = 1, slow_sample_freq = 2,
      slow_x = Some [1, 2, 3, 4, 5, 6], slow_length = 2, slow_logits = [100, 200]\<rparr>"
    by code_simp
  have a1: "slow_x (fst (SlowStreamBuffer_add_data [3] 30 example_SlowStreamBuffer_short)) =
      Some [3]"
    unfolding s1 by (simp add: SlowStreamBuffer_add_data_def Let_def slice_from_def py_floordiv_def)
  have a2: "slow_x (fst (SlowStreamBuffer_add_data [7] 300 example_SlowStreamBuffer)) =
      Some [3, 4, 5, 6, 7]"
    unfolding s2 by (simp add: SlowStreamBuffer_add_data_def Let_def slice_from_def py_floordiv_def)
  show ?thesis using r1 r2 a1 a2 by (simp add: s1 s2)
qed

text \<open>
  C6, amended. Take a reachable \<open>SlowStreamBuffer\<close> that holds a series (so the call is
  not the first) and has a positive \<open>sample_freq\<close>. Every \<open>add_data\<close> then returns and
  leaves \<open>length\<close> equal to \<open>floor((series_length - seq_len - pred_len) / sample_freq) + 1\<close>
  when the new series has at least \<open>seq_len + pred_len\<close> time steps, and to \<open>0\<close>
  otherwise. When the stored \<open>length\<close> is at least \<open>buffer_size\<close>, and the series and \<open>x\<close>
  have at least \<open>sample_freq\<close> time steps each, the call drops exactly the \<open>sample_freq\<close>
  oldest time steps of the series and exactly the oldest entry of \<open>logits\<close>, and appends
  the \<open>sample_freq\<close> newest time steps of \<open>x\<close> and the new \<open>logits\<close> value; the series
  keeps its number of time steps, so the next call meets the same conditions.
\<close>

theorem SlowStreamBuffer_add_data_full:
  assumes "SlowStreamBuffer_reachable b" and "slow_x b = Some xs" and "0 < slow_sample_freq b"
  shows "(\<exists>xs'. snd (SlowStreamBuffer_add_data x logits b) = None \<and>
            slow_x (fst (SlowStreamBuffer_add_data x logits b)) = Some xs' \<and>
            slow_length (fst (SlowStreamBuffer_add_data x logits b)) =
              (if slow_seq_len b + slow_pred_len b \<le> int (length xs')
               then (int (length xs') - slow_seq_len b - slow_pred_len b) div slow_sample_freq b + 1
               else 0)) \<and>
         (slow_buffer_size b \<le> slow_length b \<and> slow_sample_freq b \<le> int (length xs) \<and>
          slow_sample_freq b \<le> int (length x) \<longrightarrow>
            slow_x (fst (SlowStreamBuffer_add_data x logits b)) =
              Some (drop (nat (slow_sample_freq b)) xs @
                    drop (length x - nat (slow_sample_freq b)) x) \<and>
            length (drop (nat (slow_sample_freq b)) xs) = length xs - nat (slow_sample_freq b) \<and>
            length (drop (length x - nat (slow_sample_freq b)) x) = nat (slow_sample_freq b) \<and>
            length (drop (nat (slow_sample_freq b)) xs @
                    drop (length x - nat (slow_sample_freq b)) x) = length xs \<and>
            slow_logits b \<noteq> [] \<and>
            slow_logits (fst (SlowStreamBuffer_add_data x logits b)) =
              tl (slow_logits b) @ [logits])"
proof (intro conjI impI)
  define full where "full = (slow_buffer_size b \<le> slow_length b)"
  define xs2 where "xs2 = (if full then slice_from (slow_sample_freq b) xs else xs) @
      slice_from (- slow_sample_freq b) x"
  have sf: "slow_sample_freq b \<noteq> 0" using assms(3) by simp
  have "snd (SlowStreamBuffer_add_data x logits b) = None \<and>
        slow_x (fst (SlowStreamBuffer_add_data x logits b)) = Some xs2 \<and>
        slow_length (fst (SlowStreamBuffer_add_data x logits b)) =
          (if slow_seq_len b + slow_pred_len b \<le> int (length xs2)
           then (int (length xs2) - slow_seq_len b - slow_pred_len b) div slow_sample_freq b + 1
           else 0)"
    using assms(2) sf
    by (simp add: SlowStreamBuffer_add_data_def Let_def py_floordiv_def xs2_def full_def)
  then show "\<exists>xs'. snd (SlowStreamBuffer_add_data x logits b) = None \<and>
            slow_x (fst (SlowStreamBuffer_add_data x logits b)) = Some xs' \<and>
            slow_length (fst (SlowStreamBuffer_add_data x logits b)) =
              (if slow_seq_len b + slow_pred_len b \<le> int (length xs')
               then (int (length xs') - slow_seq_len b - slow_pred_len b) div slow_sample_freq b + 1
               else 0)"
    by blast
next
  assume a: "slow_buffer_size b \<le> slow_length b \<and> slow_sample_freq b \<le> int (length xs) \<and>
          slow_sample_freq b \<le> int (length x)"
  have sf: "slow_sample_freq b \<noteq> 0" "0 \<le> slow_sample_freq b" using assms(3) by simp_all
  have newest: "slice_from (- slow_sample_freq b) x = drop (length x - nat (slow_sample_freq b)) x"
    "length (slice_from (- slow_sample_freq b) x) = nat (slow_sample_freq b)"
    using slice_from_newest[of "slow_sample_freq b" x] assms(3) a by blast+
  show "slow_x (fst (SlowStreamBuffer_add_data x logits b)) =
              Some (drop (nat (slow_sample_freq b)) xs @
                    drop (length x - nat (slow_sample_freq b)) x)"
    using assms(2) a sf newest(1)
    by (simp add: SlowStreamBuffer_add_data_def Let_def py_floordiv_def slice_from_drop)
  show "length (drop (nat (slow_sample_freq b)) xs) = length xs - nat (slow_sample_freq b)"
    by simp
  show "length (drop (length x - nat (slow_sample_freq b)) x) = nat (slow_sample_freq b)"
    using newest(2) unfolding newest(1) .
  show "length (drop (nat (slow_sample_freq b)) xs @
                    drop (length x - nat (slow_sample_freq b)) x) = length xs"
  proof -
    have "nat (slow_sample_freq b) \<le> length xs" using a by linarith
    moreover have "length (drop (length x - nat (slow_sample_freq b)) x) = nat (slow_sample_freq b)"
      using newest(2) unfolding newest(1) .
    ultimately show ?thesis by (simp del: length_drop add: length_drop[of _ xs])
  qed
  show "slow_logits b \<noteq> []"
    using SlowStreamBuffer_reachable_logits[OF assms(1)] assms(2) by simp
  show "slow_logits (fst (SlowStreamBuffer_add_data x logits b)) = tl (slow_logits b) @ [logits]"
    using assms(2) a sf
    by (simp add: SlowStreamBuffer_add_data_def Let_def py_floordiv_def slice_from_1)
qed

lemma example_SlowStreamBuffer_reachable: "SlowStreamBuffer_reachable example_SlowStreamBuffer"
  unfolding example_SlowStreamBuffer_def
  by (intro Slow_reachable_add_data Slow_reachable_init)

lemma example_SlowStreamBuffer_state:
  "example_SlowStreamBuffer =
     \<lparr>slow_buffer_size = 1, slow_seq_len = 2, slow_pred_len = 1, slow_sample_freq = 2,
      slow_x = Some [1, 2, 3, 4, 5, 6], slow_length = 2, slow_logits = [100, 200]\<rparr>"
  by code_simp

theorem SlowStreamBuffer_add_data_full_witness:
  "SlowStreamBuffer_reachable example_SlowStreamBuffer \<and>
   slow_x example_SlowStreamBuffer = Some [1, 2, 3, 4, 5, 6] \<and>
   0 < slow_sample_freq example_SlowStreamBuffer \<and>
   slow_buffer_size example_SlowStreamBuffer \<le> slow_length example_SlowStreamBuffer \<and>
   slow_sample_freq example_SlowStreamBuffer \<le> int (length [1, 2, 3, 4, 5, 6 :: int]) \<and>
   slow_sample_freq example_SlowStreamBuffer \<le> int (length [7, 8 :: int]) \<and>
   snd (SlowStreamBuffer_add_data [7, 8] 300 example_SlowStreamBuffer) = None \<and>
   slow_x (fst (SlowStreamBuffer_add_data [7, 8] 300 example_SlowStreamBuffer)) =
     Some [3, 4, 5, 6, 7, 8] \<and>
   slow_logits (fst (SlowStreamBuffer_add_data [7, 8] 300 example_SlowStreamBuffer)) =
     [200, 300] \<and>
   slow_length (fst (SlowStreamBuffer_add_data [7, 8] 300 example_SlowStreamBuffer)) = 2"
proof -
  have st: "slow_x example_SlowStreamBuffer = Some [1, 2, 3, 4, 5, 6]"
    "slow_sample_freq example_SlowStreamBuffer = 2"
    "slow_buffer_size example_SlowStreamBuffer = 1"
    "slow_length example_SlowStreamBuffer = 2"
    "slow_seq_len example_SlowStreamBuffer = 2"
    "slow_pred_len example_SlowStreamBuffer = 1"
    "slow_logits example_SlowStreamBuffer = [100, 200]"
    by (simp_all add: example_SlowStreamBuffer_state)
  have pos: "0 < slow_sample_freq example_SlowStreamBuffer" by (simp add: st)
  note T = SlowStreamBuffer_add_data_full[OF example_SlowStreamBuffer_reachable st(1) pos,
      of "[7, 8]" 300]
  have d: "drop 2 [1, 2, 3, 4, 5, 6 :: int] = [3, 4, 5, 6]" by code_simp
  show ?thesis
    using T example_SlowStreamBuffer_reachable st by (auto simp: d)
qed

end
